theory Spec2Isabelle
  imports Main "HOL-Library.Word" "HOL-Library.Char_ord"
begin

section \<open>Server-sent events codec (renderer/sse.go)\<close>

text \<open>
  A shallow embedding of \<^verbatim>\<open>SSEventEncode\<close> and \<^verbatim>\<open>SSEventDecode\<close>.
  Go byte slices and Go strings are both byte sequences; a byte is a \<^typ>\<open>char\<close>.
  Go's \<^verbatim>\<open>int\<close> and \<^verbatim>\<open>uint\<close> are taken at their 64-bit width.
\<close>

subsection \<open>Bytes, readers, writers\<close>

type_synonym bytes = "char list"

abbreviation LF :: char where "LF \<equiv> CHR 0x0A"
abbreviation CR :: char where "CR \<equiv> CHR 0x0D"
abbreviation NUL :: char where "NUL \<equiv> CHR 0x00"
abbreviation BOM :: bytes where "BOM \<equiv> [CHR 0xEF, CHR 0xBB, CHR 0xBF]"

datatype io_error = IOError string

text \<open>
  The outcome of a Go call that may return normally, return an error, or panic.
\<close>

datatype 'a result = Ok 'a | Err io_error | Panic

text \<open>
  An \<^verbatim>\<open>io.Reader\<close> value: the nil interface, an in-memory reader over the bytes it
  still holds (\<^verbatim>\<open>bytes.Reader\<close>, \<^verbatim>\<open>strings.Reader\<close>, \<^verbatim>\<open>bytes.Buffer\<close>), or a
  reader that delivers some bytes and then fails with an error other than EOF.
\<close>

datatype reader = NilReader | BytesReader bytes | ErrReader bytes io_error

text \<open>\<^verbatim>\<open>io.ReadAll\<close>: calling \<^verbatim>\<open>Read\<close> on the nil interface panics.\<close>

fun ReadAll :: "reader \<Rightarrow> bytes result" where
  "ReadAll NilReader = Panic"
| "ReadAll (BytesReader b) = Ok b"
| "ReadAll (ErrReader b e) = Err e"

text \<open>
  An \<^verbatim>\<open>io.Writer\<close> destination: the bytes it has accepted so far, and whether it is
  broken (every \<^verbatim>\<open>Write\<close> then accepts nothing and returns that error).
\<close>

record writer =
  written :: bytes
  broken :: "io_error option"

definition Write :: "writer \<Rightarrow> bytes \<Rightarrow> writer \<times> io_error option" where
  "Write w p = (case broken w of
       Some e \<Rightarrow> (w, Some e)
     | None \<Rightarrow> (w\<lparr>written := written w @ p\<rparr>, None))"

text \<open>
  \<^verbatim>\<open>bufio.Writer\<close> with its default buffer of 4096 bytes: the destination, the bytes
  that are buffered, and the sticky error.
\<close>

record bufio_writer =
  wr :: writer
  pending :: bytes
  berr :: "io_error option"

definition defaultBufSize :: nat where
  "defaultBufSize = 4096"

definition NewWriter :: "writer \<Rightarrow> bufio_writer" where
  "NewWriter w = \<lparr>wr = w, pending = [], berr = None\<rparr>"

definition Available :: "bufio_writer \<Rightarrow> nat" where
  "Available b = defaultBufSize - length (pending b)"

definition Flush :: "bufio_writer \<Rightarrow> bufio_writer \<times> io_error option" where
  "Flush b = (case berr b of
       Some e \<Rightarrow> (b, Some e)
     | None \<Rightarrow>
         if pending b = [] then (b, None)
         else (case Write (wr b) (pending b) of
                 (w', Some e) \<Rightarrow> (b\<lparr>wr := w', berr := Some e\<rparr>, Some e)
               | (w', None) \<Rightarrow> (b\<lparr>wr := w', pending := []\<rparr>, None)))"

text \<open>A large write into an empty buffer goes to the destination directly.\<close>

definition write_through :: "bufio_writer \<Rightarrow> bytes \<Rightarrow> bufio_writer \<times> io_error option" where
  "write_through b p =
     (case Write (wr b) p of
        (w', Some e) \<Rightarrow> (b\<lparr>wr := w', berr := Some e\<rparr>, Some e)
      | (w', None) \<Rightarrow> (b\<lparr>wr := w'\<rparr>, None))"

text \<open>
  \<^verbatim>\<open>(*Writer).Write\<close>. Its loop runs while the bytes do not fit the free space and
  nothing has failed: with an empty buffer it writes directly, otherwise it fills the
  buffer and flushes. After one flush the buffer is empty, so the loop is over after
  at most one more round; what is left is buffered.
\<close>

definition bufio_Write :: "bufio_writer \<Rightarrow> bytes \<Rightarrow> bufio_writer \<times> io_error option" where
  "bufio_Write b p =
     (case berr b of
        Some e \<Rightarrow> (b, Some e)
      | None \<Rightarrow>
          if length p \<le> Available b then (b\<lparr>pending := pending b @ p\<rparr>, None)
          else if pending b = [] then write_through b p
          else (case Flush (b\<lparr>pending := pending b @ take (Available b) p\<rparr>) of
                  (b', Some e) \<Rightarrow> (b', Some e)
                | (b', None) \<Rightarrow>
                    (let rest = drop (Available b) p
                     in if length rest \<le> Available b'
                        then (b'\<lparr>pending := pending b' @ rest\<rparr>, None)
                        else write_through b' rest)))"

text \<open>\<^verbatim>\<open>fmt.Fprintf\<close> formats and then makes one \<^verbatim>\<open>Write\<close> call.\<close>

definition Fprintf :: "bufio_writer \<Rightarrow> bytes \<Rightarrow> bufio_writer \<times> io_error option" where
  "Fprintf b s = bufio_Write b s"

definition WriteString :: "bufio_writer \<Rightarrow> bytes \<Rightarrow> bufio_writer \<times> io_error option" where
  "WriteString b s = bufio_Write b s"

text \<open>
  \<^verbatim>\<open>io.Copy(buf, src)\<close> into a \<^verbatim>\<open>bufio.Writer\<close>. An in-memory reader hands over
  the bytes it holds in one write, and makes no call when it holds none. For the nil
  interface the copy goes through \<^verbatim>\<open>buf.ReadFrom\<close>, which returns the sticky error
  if there is one, flushes first if the buffer is exactly full, and then calls
  \<^verbatim>\<open>Read\<close> on nil: a panic. A failing reader's bytes are written and its error is
  returned, unless the destination has failed on those bytes (which of the two errors
  comes first can depend on how such a reader hands out its bytes).
\<close>

fun io_Copy :: "bufio_writer \<Rightarrow> reader \<Rightarrow> bufio_writer \<times> unit result" where
  "io_Copy b (BytesReader p) =
     (if p = [] then (b, Ok ())
      else (case bufio_Write b p of
              (b', Some e) \<Rightarrow> (b', Err e)
            | (b', None) \<Rightarrow> (b', Ok ())))"
| "io_Copy b NilReader =
     (case berr b of
        Some e \<Rightarrow> (b, Err e)
      | None \<Rightarrow>
          if Available b = 0
          then (case Flush b of
                  (b', Some e) \<Rightarrow> (b', Err e)
                | (b', None) \<Rightarrow> (b', Panic))
          else (b, Panic))"
| "io_Copy b (ErrReader p re) =
     (case bufio_Write b p of
        (b', Some e) \<Rightarrow> (b', Err e)
      | (b', None) \<Rightarrow> (b', Err re))"

subsection \<open>The event type\<close>

record SSEvent =
  Event :: string
  Data :: reader
  ID :: string
  Retry :: "64 word"

text \<open>Go's zero value \<^verbatim>\<open>SSEvent{}\<close>.\<close>

definition zero_SSEvent :: SSEvent where
  "zero_SSEvent = \<lparr>Event = [], Data = NilReader, ID = [], Retry = 0\<rparr>"

subsection \<open>Decimal numbers: \<^verbatim>\<open>%d\<close> and \<^verbatim>\<open>strconv.Atoi\<close>\<close>

definition digit_char :: "nat \<Rightarrow> char" where
  "digit_char d = ''0123456789'' ! d"

fun FormatUint :: "nat \<Rightarrow> string" where
  "FormatUint n = (if n < 10 then [digit_char n]
                   else FormatUint (n div 10) @ [digit_char (n mod 10)])"

declare FormatUint.simps [simp del]

text \<open>
  \<^verbatim>\<open>strconv.Atoi\<close>: an optional sign, then one or more ASCII digits, and the value
  has to fit a signed 64-bit integer; anything else is an error (\<open>None\<close>).
\<close>

definition digit_val :: "char \<Rightarrow> nat option" where
  "digit_val c = (let n = (of_char c :: nat)
                  in if 48 \<le> n \<and> n \<le> 57 then Some (n - 48) else None)"

fun parse_digits :: "string \<Rightarrow> nat \<Rightarrow> nat option" where
  "parse_digits [] n = Some n"
| "parse_digits (c # cs) n =
     (case digit_val c of
        None \<Rightarrow> None
      | Some d \<Rightarrow> parse_digits cs (n * 10 + d))"

definition Atoi :: "string \<Rightarrow> int option" where
  "Atoi s =
     (case s of
        [] \<Rightarrow> None
      | c # cs \<Rightarrow>
          (let neg = (c = CHR ''-'');
               ds = (if c = CHR ''-'' \<or> c = CHR ''+'' then cs else s)
           in if ds = [] then None
              else (case parse_digits ds 0 of
                      None \<Rightarrow> None
                    | Some n \<Rightarrow>
                        (let v = (if neg then - int n else int n)
                         in if - (2 ^ 63) \<le> v \<and> v \<le> 2 ^ 63 - 1 then Some v else None))))"

subsection \<open>The encoder\<close>

definition SSEventEncode :: "writer \<Rightarrow> SSEvent \<Rightarrow> writer \<times> unit result" where
  "SSEventEncode writer event =
     (let buf = NewWriter writer;
          (buf, err) = (if length (Event event) > 0
                        then Fprintf buf (''event: '' @ Event event @ [LF])
                        else (buf, None))
      in case err of Some e \<Rightarrow> (wr buf, Err e) | None \<Rightarrow>
     (let (buf, err) = (if length (ID event) > 0
                        then Fprintf buf (''id: '' @ ID event @ [LF])
                        else (buf, None))
      in case err of Some e \<Rightarrow> (wr buf, Err e) | None \<Rightarrow>
     (let (buf, err) = (if Retry event > 0
                        then Fprintf buf (''retry: '' @ FormatUint (unat (Retry event)) @ [LF])
                        else (buf, None))
      in case err of Some e \<Rightarrow> (wr buf, Err e) | None \<Rightarrow>
     (let (buf, _) = WriteString buf ''data: ''
      in case io_Copy buf (Data event) of
           (buf, Panic) \<Rightarrow> (wr buf, Panic)
         | (buf, Err e) \<Rightarrow> (wr buf, Err e)
         | (buf, Ok _) \<Rightarrow>
     (let (buf, _) = WriteString buf [LF, LF]
      in case Flush buf of
           (buf, Some e) \<Rightarrow> (wr buf, Err e)
         | (buf, None) \<Rightarrow> (wr buf, Ok ()))))))"

subsection \<open>Byte-slice helpers of the decoder (package \<^verbatim>\<open>bytes\<close>)\<close>

definition HasPrefix :: "bytes \<Rightarrow> bytes \<Rightarrow> bool" where
  "HasPrefix s prefix = (length s \<ge> length prefix \<and> take (length prefix) s = prefix)"

definition TrimPrefix :: "bytes \<Rightarrow> bytes \<Rightarrow> bytes" where
  "TrimPrefix s prefix = (if HasPrefix s prefix then drop (length prefix) s else s)"

text \<open>
  \<^verbatim>\<open>bytes.ReplaceAll\<close> and \<^verbatim>\<open>bytes.Split\<close>, scanning left to right for non-overlapping
  occurrences. The decoder calls them with a non-empty \<open>old\<close> and \<open>sep\<close> only (for an
  empty one Go works rune by rune; here the input is returned as it is).
\<close>

function ReplaceAll :: "bytes \<Rightarrow> bytes \<Rightarrow> bytes \<Rightarrow> bytes" where
  "ReplaceAll [] old new = []"
| "ReplaceAll (c # s) old new =
     (if old \<noteq> [] \<and> HasPrefix (c # s) old
      then new @ ReplaceAll (drop (length old) (c # s)) old new
      else c # ReplaceAll s old new)"
  by pat_completeness auto
termination
  by (relation "measure (\<lambda>(s, old, new). length s)") auto

function Split :: "bytes \<Rightarrow> bytes \<Rightarrow> bytes list" where
  "Split [] sep = [[]]"
| "Split (c # s) sep =
     (if sep \<noteq> [] \<and> HasPrefix (c # s) sep
      then [] # Split (drop (length sep) (c # s)) sep
      else (case Split s sep of
              [] \<Rightarrow> [[c]]
            | l # ls \<Rightarrow> (c # l) # ls))"
  by pat_completeness auto
termination
  by (relation "measure (\<lambda>(s, sep). length s)") auto

fun Join :: "bytes list \<Rightarrow> bytes \<Rightarrow> bytes" where
  "Join [] sep = []"
| "Join [x] sep = x"
| "Join (x # y # ys) sep = x @ sep @ Join (y # ys) sep"

text \<open>\<^verbatim>\<open>bytes.IndexRune\<close> for an ASCII rune: the first index of the byte, or -1.\<close>

fun IndexRune :: "bytes \<Rightarrow> char \<Rightarrow> int" where
  "IndexRune [] r = -1"
| "IndexRune (c # s) r =
     (if c = r then 0
      else (let i = IndexRune s r in if i = -1 then -1 else i + 1))"

fun Contains :: "bytes \<Rightarrow> bytes \<Rightarrow> bool" where
  "Contains [] sub = (sub = [])"
| "Contains (c # s) sub = (HasPrefix (c # s) sub \<or> Contains s sub)"

subsection \<open>The decoder\<close>

text \<open>The three variables of the line loop.\<close>

record decode_state =
  dataLines :: "bytes list"
  event :: SSEvent
  events :: "SSEvent list"

definition init_state :: decode_state where
  "init_state = \<lparr>dataLines = [], event = zero_SSEvent, events = []\<rparr>"

text \<open>The field name and value of a line that is neither empty nor a comment.\<close>

definition split_field :: "bytes \<Rightarrow> bytes \<times> bytes" where
  "split_field line =
     (let index = IndexRune line (CHR '':'')
      in if index \<noteq> -1
         then (let field = take (nat index) line;
                   value = drop (nat (index + 1)) line
               in if length value > 0 \<and> value ! 0 = CHR '' ''
                  then (field, drop 1 value)
                  else (field, value))
         else (line, []))"

text \<open>One iteration of the loop over the lines.\<close>

definition process_line :: "decode_state \<Rightarrow> bytes \<Rightarrow> decode_state" where
  "process_line st line =
     (if length line = 0 then
        (if length (dataLines st) = 0 \<and> Event (event st) = [] then st
         else
           (let ev1 = (if length (dataLines st) > 0
                       then (event st)\<lparr>Data := BytesReader (Join (dataLines st) [LF])\<rparr>
                       else event st);
                ev2 = (if Event ev1 = [] then ev1\<lparr>Event := ''message''\<rparr> else ev1)
            in st\<lparr>events := events st @ [ev2], event := zero_SSEvent, dataLines := []\<rparr>))
      else if HasPrefix line [CHR '':''] then st
      else
        (let (field, value) = split_field line
         in if field = ''event'' then st\<lparr>event := (event st)\<lparr>Event := value\<rparr>\<rparr>
            else if field = ''id'' then
              (if \<not> Contains value [NUL] then st\<lparr>event := (event st)\<lparr>ID := value\<rparr>\<rparr> else st)
            else if field = ''retry'' then
              (case Atoi value of
                 Some retry \<Rightarrow>
                   if retry \<ge> 0 then st\<lparr>event := (event st)\<lparr>Retry := word_of_int retry\<rparr>\<rparr>
                   else st
               | None \<Rightarrow> st)
            else if field = ''data'' then st\<lparr>dataLines := dataLines st @ [value]\<rparr>
            else st))"

definition decode_lines :: "bytes list \<Rightarrow> SSEvent list" where
  "decode_lines lines = events (foldl process_line init_state lines)"

text \<open>BOM stripping, line-ending normalisation and the split into lines.\<close>

definition normalize_raw :: "bytes \<Rightarrow> bytes" where
  "normalize_raw raw =
     ReplaceAll (ReplaceAll (TrimPrefix raw BOM) [CR, LF] [LF]) [CR] [LF]"

definition SSEventDecode :: "reader \<Rightarrow> SSEvent list result" where
  "SSEventDecode reader =
     (case ReadAll reader of
        Panic \<Rightarrow> Panic
      | Err e \<Rightarrow> Err e
      | Ok raw \<Rightarrow> Ok (decode_lines (Split (normalize_raw raw) [LF])))"

subsection \<open>Notions of the specification\<close>

text \<open>
  The event that a boundary appends, field by field as the specification describes it:
  the name defaults to \<open>message\<close>, the payload is the joined data lines.
\<close>

definition finish_event :: "decode_state \<Rightarrow> SSEvent" where
  "finish_event st =
     \<lparr>Event = (if Event (event st) = [] then ''message'' else Event (event st)),
      Data = (if dataLines st = [] then Data (event st)
              else BytesReader (Join (dataLines st) [LF])),
      ID = ID (event st),
      Retry = Retry (event st)\<rparr>"

text \<open>
  A strict base-10 integer, in the specification's words: an optional sign and then
  decimal digits only, at least one. \<open>strict_base10\<close> gives its value, if it is one.
\<close>

definition is_digit :: "char \<Rightarrow> bool" where
  "is_digit c = (CHR ''0'' \<le> c \<and> c \<le> CHR ''9'')"

definition digits_value :: "string \<Rightarrow> nat" where
  "digits_value ds = foldl (\<lambda>a c. 10 * a + (of_char c - 48)) 0 ds"

definition strict_base10 :: "string \<Rightarrow> int option" where
  "strict_base10 v =
     (let signed = (v \<noteq> [] \<and> (hd v = CHR ''+'' \<or> hd v = CHR ''-''));
          ds = (if signed then tl v else v)
      in if ds \<noteq> [] \<and> list_all is_digit ds
         then Some (if v \<noteq> [] \<and> hd v = CHR ''-'' then - int (digits_value ds)
                    else int (digits_value ds))
         else None)"

text \<open>
  The all-LF form of an input, in one pass from the left: a CR followed by an LF becomes
  one LF, any other CR becomes an LF, every other byte stays.
\<close>

fun all_lf :: "bytes \<Rightarrow> bytes" where
  "all_lf [] = []"
| "all_lf [c] = [if c = CR then LF else c]"
| "all_lf (c # d # s) =
     (if c = CR \<and> d = LF then LF # all_lf s
      else if c = CR then LF # all_lf (d # s)
      else c # all_lf (d # s))"

text \<open>
  An input as a mixture of line endings: lines, each with the ending it has, and what
  comes after the last ending. \<open>plain_lines\<close>: no line has a CR or LF inside, and
  a line that ends with a bare CR is not followed by an empty line that ends with LF
  (those two bytes are a CRLF).
\<close>

datatype eol = EOL_LF | EOL_CRLF | EOL_CR

fun eol_bytes :: "eol \<Rightarrow> bytes" where
  "eol_bytes EOL_LF = [LF]"
| "eol_bytes EOL_CRLF = [CR, LF]"
| "eol_bytes EOL_CR = [CR]"

fun join_lines :: "(bytes \<times> eol) list \<Rightarrow> bytes \<Rightarrow> bytes" where
  "join_lines [] rest = rest"
| "join_lines ((l, e) # ls) rest = l @ eol_bytes e @ join_lines ls rest"

fun plain_lines :: "(bytes \<times> eol) list \<Rightarrow> bytes \<Rightarrow> bool" where
  "plain_lines [] rest = (CR \<notin> set rest \<and> LF \<notin> set rest)"
| "plain_lines ((l, e) # ls) rest =
     (CR \<notin> set l \<and> LF \<notin> set l \<and> plain_lines ls rest \<and>
      (if e = EOL_CR then (case ls of (l', e') # _ \<Rightarrow> \<not> (l' = [] \<and> e' = EOL_LF) | [] \<Rightarrow> True)
       else True))"

text \<open>The header lines and the wire format of an event, as the specification lists them.\<close>

definition header :: "SSEvent \<Rightarrow> bytes" where
  "header e =
     (if Event e \<noteq> [] then ''event: '' @ Event e @ [LF] else []) @
     (if ID e \<noteq> [] then ''id: '' @ ID e @ [LF] else []) @
     (if Retry e > 0 then ''retry: '' @ FormatUint (unat (Retry e)) @ [LF] else [])"

definition wire_format :: "SSEvent \<Rightarrow> bytes \<Rightarrow> bytes" where
  "wire_format e p = header e @ ''data: '' @ p @ [LF, LF]"

text \<open>
  Two invariants of the buffered writer, used in the proofs about the encoder: nothing
  has failed; and the only error there can be is the destination's.
\<close>

definition working :: "bufio_writer \<Rightarrow> bool" where
  "working b = (broken (wr b) = None \<and> berr b = None)"

definition delivered :: "bufio_writer \<Rightarrow> bytes" where
  "delivered b = written (wr b) @ pending b"

definition sane :: "writer \<Rightarrow> bufio_writer \<Rightarrow> bool" where
  "sane w b = (broken (wr b) = broken w \<and> (berr b = None \<or> berr b = broken w))"

text \<open>The definitions to unfold when an encoding or a decoding is evaluated.\<close>

lemmas enc_defs = SSEventEncode_def NewWriter_def Fprintf_def WriteString_def bufio_Write_def
  write_through_def Flush_def Write_def Available_def defaultBufSize_def FormatUint.simps digit_char_def Let_def

lemmas dec_defs = SSEventDecode_def normalize_raw_def TrimPrefix_def decode_lines_def
  init_state_def process_line_def split_field_def zero_SSEvent_def Atoi_def digit_val_def Let_def

section \<open>Properties\<close>

subsection \<open>The byte-slice helpers\<close>

lemma HasPrefix_Nil [simp]: "HasPrefix s []"
  by (simp add: HasPrefix_def)

lemma HasPrefix_Nil_Cons [simp]: "\<not> HasPrefix [] (p # ps)"
  by (simp add: HasPrefix_def)

lemma HasPrefix_Cons_Cons [simp]: "HasPrefix (c # s) (p # ps) \<longleftrightarrow> c = p \<and> HasPrefix s ps"
  by (auto simp: HasPrefix_def)

lemma HasPrefix_append_same [simp]: "HasPrefix (p @ s) p"
  by (simp add: HasPrefix_def)

lemma TrimPrefix_append_same [simp]: "TrimPrefix (p @ s) p = s"
  by (simp add: TrimPrefix_def)

lemma HasPrefix_single: "HasPrefix s [c] \<longleftrightarrow> (s \<noteq> [] \<and> hd s = c)"
  by (cases s) (auto simp: HasPrefix_def)

lemma Contains_single: "Contains s [c] \<longleftrightarrow> c \<in> set s"
  by (induction s) (auto simp: HasPrefix_def)

lemma Join_Cons: "Join (x # xs) sep = x @ concat (map (\<lambda>l. sep @ l) xs)"
  by (induction xs arbitrary: x) auto

lemma IndexRune_notin: "r \<notin> set s \<Longrightarrow> IndexRune s r = -1"
  by (induction s) auto

lemma IndexRune_first: "r \<notin> set f \<Longrightarrow> IndexRune (f @ r # v) r = int (length f)"
  by (induction f) (auto simp: Let_def)

subsection \<open>Decimal parsing\<close>

lemma digit_val_is_digit:
  "digit_val c = (if is_digit c then Some (of_char c - 48) else None)"
  by (simp add: digit_val_def is_digit_def less_eq_char_def Let_def)

lemma parse_digits_foldl:
  "parse_digits ds k =
     (if list_all is_digit ds
      then Some (foldl (\<lambda>a c. 10 * a + (of_char c - 48)) k ds) else None)"
  by (induction ds arbitrary: k) (simp_all add: digit_val_is_digit mult.commute)

lemma Atoi_strict_base10:
  "Atoi v = (case strict_base10 v of
               None \<Rightarrow> None
             | Some n \<Rightarrow> if - (2 ^ 63) \<le> n \<and> n \<le> 2 ^ 63 - 1 then Some n else None)"
  by (cases v)
     (auto simp: Atoi_def strict_base10_def parse_digits_foldl digits_value_def Let_def
                 is_digit_def less_eq_char_def)

subsection \<open>One line of the decoder\<close>

lemma process_line_blank_skip:
  "dataLines st = [] \<Longrightarrow> Event (event st) = [] \<Longrightarrow> process_line st [] = st"
  by (simp add: process_line_def)

lemma process_line_blank_emit:
  "dataLines st \<noteq> [] \<or> Event (event st) \<noteq> [] \<Longrightarrow>
   process_line st [] =
     st\<lparr>events := events st @ [finish_event st], event := zero_SSEvent, dataLines := []\<rparr>"
  by (auto simp: process_line_def finish_event_def Let_def)

lemma process_line_comment: "process_line st (CHR '':'' # l) = st"
  by (simp add: process_line_def HasPrefix_def)

lemma process_line_field:
  "line \<noteq> [] \<Longrightarrow> hd line \<noteq> CHR '':'' \<Longrightarrow> split_field line = (field, v) \<Longrightarrow>
   process_line st line =
     (if field = ''event'' then st\<lparr>event := (event st)\<lparr>Event := v\<rparr>\<rparr>
      else if field = ''id'' then
        (if \<not> Contains v [NUL] then st\<lparr>event := (event st)\<lparr>ID := v\<rparr>\<rparr> else st)
      else if field = ''retry'' then
        (case Atoi v of
           Some retry \<Rightarrow>
             if retry \<ge> 0 then st\<lparr>event := (event st)\<lparr>Retry := word_of_int retry\<rparr>\<rparr>
             else st
         | None \<Rightarrow> st)
      else if field = ''data'' then st\<lparr>dataLines := dataLines st @ [v]\<rparr>
      else st)"
  by (simp add: process_line_def HasPrefix_single)

lemma events_process_line_nonblank:
  "l \<noteq> [] \<Longrightarrow> events (process_line st l) = events st"
  by (auto simp: process_line_def Let_def split: prod.splits option.splits)

lemma events_process_line:
  "events (process_line st l) =
     (if l = [] \<and> (dataLines st \<noteq> [] \<or> Event (event st) \<noteq> [])
      then events st @ [finish_event st] else events st)"
  by (cases "l = []")
     (auto simp: process_line_blank_emit process_line_blank_skip events_process_line_nonblank)

lemma events_foldl_nonblank:
  "[] \<notin> set ls \<Longrightarrow> events (foldl process_line st ls) = events st"
  by (induction ls arbitrary: st) (auto simp: events_process_line_nonblank)

lemma decode_lines_trailing:
  "[] \<notin> set rest \<Longrightarrow> decode_lines (ls @ rest) = decode_lines ls"
  by (simp add: decode_lines_def events_foldl_nonblank)

lemma split_field_no_colon:
  "CHR '':'' \<notin> set line \<Longrightarrow> split_field line = (line, [])"
  by (simp add: split_field_def IndexRune_notin)

lemma split_field_colon:
  "CHR '':'' \<notin> set f \<Longrightarrow>
   split_field (f @ CHR '':'' # v) =
     (f, if v \<noteq> [] \<and> hd v = CHR '' '' then tl v else v)"
  by (cases v) (auto simp: split_field_def IndexRune_first Let_def nat_add_distrib)

subsection \<open>Line endings and the byte order mark\<close>

lemma ReplaceAll_CRLF_Cons:
  "ReplaceAll (c # s) [CR, LF] [LF] =
     (if c = CR \<and> s \<noteq> [] \<and> hd s = LF then LF # ReplaceAll (tl s) [CR, LF] [LF]
      else c # ReplaceAll s [CR, LF] [LF])"
  by (cases s) auto

lemma ReplaceAll_CR: "ReplaceAll s [CR] [LF] = map (\<lambda>c. if c = CR then LF else c) s"
  by (induction s) auto

lemma normalize_eol_all_lf:
  "ReplaceAll (ReplaceAll s [CR, LF] [LF]) [CR] [LF] = all_lf s"
proof (induction s rule: all_lf.induct)
  case 1
  show ?case by simp
next
  case (2 c)
  show ?case by simp
next
  case (3 c d s)
  then show ?case
    by (cases s) (auto simp: ReplaceAll_CR)
qed

lemma normalize_all_lf: "normalize_raw raw = all_lf (TrimPrefix raw BOM)"
  by (simp add: normalize_raw_def normalize_eol_all_lf)

lemma all_lf_no_CR: "CR \<notin> set (all_lf s)"
  by (induction s rule: all_lf.induct) auto

lemma all_lf_id: "CR \<notin> set s \<Longrightarrow> all_lf s = s"
  by (induction s rule: all_lf.induct) auto

lemma all_lf_idem: "all_lf (all_lf s) = all_lf s"
  by (simp add: all_lf_id all_lf_no_CR)

lemma all_lf_append_noCR:
  "CR \<notin> set u \<Longrightarrow> all_lf (u @ v) = u @ all_lf v"
proof (induction u)
  case Nil
  show ?case by simp
next
  case (Cons c u)
  then show ?case by (cases "u @ v") auto
qed

lemma all_lf_append:
  "a = [] \<or> last a \<noteq> CR \<Longrightarrow> all_lf (a @ x) = all_lf a @ all_lf x"
proof (induction a rule: all_lf.induct)
  case 1
  show ?case by simp
next
  case (2 c)
  then show ?case by (cases x) auto
next
  case (3 c d s)
  then show ?case by (cases "s = []") auto
qed

lemma HasPrefix_BOM_all_lf: "HasPrefix (all_lf s) BOM \<longleftrightarrow> HasPrefix s BOM"
proof (cases s)
  case Nil
  then show ?thesis by simp
next
  case (Cons a s1)
  note c1 = this
  show ?thesis
  proof (cases s1)
    case Nil
    with c1 show ?thesis by simp
  next
    case (Cons b s2)
    note c2 = this
    show ?thesis
    proof (cases s2)
      case Nil
      with c1 c2 show ?thesis by simp
    next
      case (Cons c s3)
      with c1 c2 show ?thesis
        by (cases s3) auto
    qed
  qed
qed

lemma HasPrefix_append_take: "HasPrefix s p \<Longrightarrow> s = p @ drop (length p) s"
  by (metis HasPrefix_def append_take_drop_id)

lemma all_lf_TrimPrefix_BOM: "all_lf (TrimPrefix s BOM) = TrimPrefix (all_lf s) BOM"
proof (cases "HasPrefix s BOM")
  case True
  then obtain t where t: "s = BOM @ t"
    using HasPrefix_append_take by blast
  have "all_lf (BOM @ t) = BOM @ all_lf t"
    by (rule all_lf_append_noCR) simp
  then show ?thesis
    unfolding t by (simp only: TrimPrefix_append_same)
next
  case False
  then show ?thesis
    by (simp add: TrimPrefix_def HasPrefix_BOM_all_lf)
qed

lemma normalize_all_lf_input: "normalize_raw (all_lf raw) = normalize_raw raw"
  by (simp add: normalize_all_lf all_lf_TrimPrefix_BOM [symmetric] all_lf_idem)

lemma decode_all_lf:
  "SSEventDecode (BytesReader (all_lf raw)) = SSEventDecode (BytesReader raw)"
  by (simp add: SSEventDecode_def normalize_all_lf_input)

lemma decode_BOM:
  "\<not> HasPrefix s BOM \<Longrightarrow>
   SSEventDecode (BytesReader (BOM @ s)) = SSEventDecode (BytesReader s)"
  using TrimPrefix_append_same [of BOM s]
  by (simp add: SSEventDecode_def normalize_raw_def TrimPrefix_def [of s] del: TrimPrefix_append_same)

subsection \<open>Splitting into lines\<close>

lemma Split_LF_Cons:
  "Split (c # s) [LF] =
     (if c = LF then [] # Split s [LF]
      else (case Split s [LF] of [] \<Rightarrow> [[c]] | l # ls \<Rightarrow> (c # l) # ls))"
  by simp

lemma Split_nonempty: "Split s [LF] \<noteq> []"
  by (induction s) (auto split: list.splits)

lemma Split_no_LF: "LF \<notin> set s \<Longrightarrow> Split s [LF] = [s]"
  by (induction s) auto

lemma Split_line: "LF \<notin> set l \<Longrightarrow> Split (l @ LF # s) [LF] = l # Split s [LF]"
  by (induction l) auto

lemma Split_append_LF: "Split (u @ LF # v) [LF] = Split u [LF] @ Split v [LF]"
proof (induction u)
  case Nil
  show ?case by simp
next
  case (Cons c u)
  then show ?case
    using Split_nonempty [of u]
    by (cases "Split u [LF]") auto
qed

subsection \<open>Comment lines\<close>

lemma process_line_comment_line: "HasPrefix c [CHR '':''] \<Longrightarrow> process_line st c = st"
  by (cases c) (auto simp: HasPrefix_single process_line_comment)

lemma decode_lines_comment:
  "HasPrefix c [CHR '':''] \<Longrightarrow> decode_lines (ls1 @ c # ls2) = decode_lines (ls1 @ ls2)"
  by (simp add: decode_lines_def process_line_comment_line)

lemma HasPrefix_BOM_after_LF:
  "HasPrefix (a @ LF # x) BOM \<longleftrightarrow> HasPrefix (a @ [LF]) BOM"
proof (cases a)
  case Nil
  then show ?thesis by simp
next
  case (Cons a1 s1)
  note c1 = this
  show ?thesis
  proof (cases s1)
    case Nil
    with c1 show ?thesis by simp
  next
    case (Cons a2 s2)
    with c1 show ?thesis by (cases s2) auto
  qed
qed

lemma HasPrefix_BOM_length: "HasPrefix (a @ [LF]) BOM \<Longrightarrow> 3 \<le> length a"
  by (cases a; cases "tl a"; cases "tl (tl a)") auto

lemma TrimPrefix_BOM_after_LF:
  "TrimPrefix (a @ LF # x) BOM = TrimPrefix (a @ [LF]) BOM @ x"
  using HasPrefix_BOM_after_LF [of a x] HasPrefix_BOM_length [of a]
  by (auto simp: TrimPrefix_def)

lemma TrimPrefix_BOM_last_LF:
  "\<exists>t. TrimPrefix (a @ [LF]) BOM = t @ [LF]"
  using HasPrefix_BOM_length [of a]
  by (auto simp: TrimPrefix_def)

lemma all_lf_LF_Cons: "all_lf (LF # s) = LF # all_lf s"
  by (cases s) auto

lemma all_lf_snoc_LF: "all_lf (t @ LF # s) = all_lf (t @ [LF]) @ all_lf s"
  using all_lf_append [of "t @ [LF]" s] by simp

lemma all_lf_line: "CR \<notin> set c \<Longrightarrow> all_lf (c @ LF # b) = c @ LF # all_lf b"
  by (simp add: all_lf_append_noCR all_lf_LF_Cons)

lemma all_lf_ends_LF: "\<exists>u. all_lf (t @ [LF]) = u @ [LF]"
proof (induction t rule: all_lf.induct)
  case 1
  show ?case by simp
next
  case (2 c)
  show ?case by auto
next
  case (3 c d s)
  then show ?case by (cases "s = []") (auto simp: Cons_eq_append_conv)
qed

lemma decode_comment_bytes:
  assumes c: "HasPrefix c [CHR '':'']" "LF \<notin> set c" "CR \<notin> set c"
    and a: "(a = [] \<and> \<not> HasPrefix b BOM) \<or> (a \<noteq> [] \<and> last a = LF)"
  shows "SSEventDecode (BytesReader (a @ c @ [LF] @ b)) = SSEventDecode (BytesReader (a @ b))"
proof -
  from a show ?thesis
  proof
    assume a0: "a = [] \<and> \<not> HasPrefix b BOM"
    have nb: "\<not> HasPrefix (c @ LF # b) BOM"
      using c(1) by (cases c) auto
    have "normalize_raw (c @ LF # b) = c @ LF # all_lf b"
      using nb c(3) by (simp add: normalize_all_lf TrimPrefix_def all_lf_line)
    moreover have "normalize_raw b = all_lf b"
      using a0 by (simp add: normalize_all_lf TrimPrefix_def)
    ultimately show ?thesis
      using a0 c decode_lines_comment [of c "[]" "Split (all_lf b) [LF]"]
      by (simp add: SSEventDecode_def Split_line)
  next
    assume a1: "a \<noteq> [] \<and> last a = LF"
    then obtain a' where a': "a = a' @ [LF]"
      by (metis append_butlast_last_id)
    obtain t where t: "TrimPrefix (a' @ [LF]) BOM = t @ [LF]"
      using TrimPrefix_BOM_last_LF by blast
    have "TrimPrefix (a @ c @ LF # b) BOM = t @ LF # (c @ LF # b)"
      using TrimPrefix_BOM_after_LF [of a' "c @ LF # b"] by (simp add: a' t)
    then have "normalize_raw (a @ c @ LF # b) = all_lf (t @ [LF]) @ all_lf (c @ LF # b)"
      by (simp only: normalize_all_lf all_lf_snoc_LF [of t "c @ LF # b"])
    then have n1: "normalize_raw (a @ c @ LF # b) = all_lf (t @ [LF]) @ c @ LF # all_lf b"
      using all_lf_line [OF c(3), of b] by simp
    have "TrimPrefix (a @ b) BOM = t @ LF # b"
      using TrimPrefix_BOM_after_LF [of a' b] by (simp add: a' t)
    then have n2: "normalize_raw (a @ b) = all_lf (t @ [LF]) @ all_lf b"
      by (simp only: normalize_all_lf all_lf_snoc_LF [of t b])
    obtain u where u: "all_lf (t @ [LF]) = u @ [LF]"
      using all_lf_ends_LF by blast
    show ?thesis
      using c decode_lines_comment [of c "Split u [LF]" "Split (all_lf b) [LF]"]
      by (simp add: SSEventDecode_def n1 n2 u Split_append_LF Split_no_LF)
  qed
qed

subsection \<open>Mixed line endings\<close>

lemma join_lines_not_LF_first:
  assumes pl: "plain_lines ls rest"
    and nx: "case ls of (l', e') # _ \<Rightarrow> \<not> (l' = [] \<and> e' = EOL_LF) | [] \<Rightarrow> True"
  shows "join_lines ls rest = [] \<or> hd (join_lines ls rest) \<noteq> LF"
proof (cases ls)
  case Nil
  with pl show ?thesis by (cases rest) auto
next
  case (Cons p ls')
  obtain l e where p: "p = (l, e)" by (cases p)
  from pl nx Cons p show ?thesis
    by (cases l; cases e) auto
qed

lemma all_lf_CR_Cons:
  "s = [] \<or> hd s \<noteq> LF \<Longrightarrow> all_lf (CR # s) = LF # all_lf s"
  by (cases s) auto

lemma all_lf_join_lines:
  "plain_lines ls rest \<Longrightarrow>
   all_lf (join_lines ls rest) = join_lines (map (\<lambda>(l, e). (l, EOL_LF)) ls) rest"
proof (induction ls)
  case Nil
  then show ?case by (simp add: all_lf_id)
next
  case (Cons p ls)
  obtain l e where p: "p = (l, e)" by (cases p)
  from Cons.prems p have pl: "CR \<notin> set l" "plain_lines ls rest" by simp_all
  have IH: "all_lf (join_lines ls rest) = join_lines (map (\<lambda>(l, e). (l, EOL_LF)) ls) rest"
    by (rule Cons.IH [OF pl(2)])
  have "all_lf (eol_bytes e @ join_lines ls rest) = LF # all_lf (join_lines ls rest)"
  proof (cases e)
    case EOL_LF
    then show ?thesis by (simp add: all_lf_LF_Cons)
  next
    case EOL_CRLF
    then show ?thesis by simp
  next
    case EOL_CR
    with Cons.prems p
    have "case ls of (l', e') # _ \<Rightarrow> \<not> (l' = [] \<and> e' = EOL_LF) | [] \<Rightarrow> True" by simp
    with pl(2) have "join_lines ls rest = [] \<or> hd (join_lines ls rest) \<noteq> LF"
      by (rule join_lines_not_LF_first)
    with EOL_CR show ?thesis by (simp add: all_lf_CR_Cons)
  qed
  with pl(1) IH p show ?case
    by (simp add: all_lf_append_noCR)
qed

lemma decode_join_lines:
  "plain_lines ls rest \<Longrightarrow>
   SSEventDecode (BytesReader (join_lines ls rest)) =
   SSEventDecode (BytesReader (join_lines (map (\<lambda>(l, e). (l, EOL_LF)) ls) rest))"
  using decode_all_lf [of "join_lines ls rest"] by (simp add: all_lf_join_lines)

subsection \<open>The buffered writer\<close>

lemma bufio_Write_working:
  assumes "working b"
  shows "\<exists>b'. bufio_Write b p = (b', None) \<and> working b' \<and> delivered b' = delivered b @ p"
  using assms
  by (auto simp: bufio_Write_def write_through_def Flush_def Write_def working_def
        delivered_def Let_def)

lemma Flush_working:
  assumes "working b"
  shows "\<exists>b'. Flush b = (b', None) \<and> working b' \<and> pending b' = [] \<and> delivered b' = delivered b"
  using assms
  by (auto simp: Flush_def Write_def working_def delivered_def)

lemma Fprintf_if_working:
  assumes "working b"
  shows "\<exists>b'. (if c then Fprintf b s else (b, None)) = (b', None) \<and> working b'
               \<and> delivered b' = delivered b @ (if c then s else [])"
  using bufio_Write_working [OF assms, of s] assms
  by (auto simp: Fprintf_def)

lemma working_NewWriter: "broken w = None \<Longrightarrow> working (NewWriter w)"
  by (simp add: working_def NewWriter_def)

lemma io_Copy_Nil_working:
  assumes "working b"
  shows "snd (io_Copy b NilReader) = Panic"
  using assms Flush_working [OF assms]
  by (auto simp: working_def)

lemma encode_steps_working:
  assumes w: "broken w = None"
  obtains b1 b2 b3 b4 where
    "(if Event e \<noteq> [] then Fprintf (NewWriter w) (''event: '' @ Event e @ [LF])
      else (NewWriter w, None)) = (b1, None)"
    "(if ID e \<noteq> [] then Fprintf b1 (''id: '' @ ID e @ [LF]) else (b1, None)) = (b2, None)"
    "(if Retry e > 0 then Fprintf b2 (''retry: '' @ FormatUint (unat (Retry e)) @ [LF])
      else (b2, None)) = (b3, None)"
    "WriteString b3 ''data: '' = (b4, None)"
    "working b4"
    "delivered b4 = written w @ header e @ ''data: ''"
proof -
  have w0: "working (NewWriter w)" by (rule working_NewWriter [OF w])
  have d0: "delivered (NewWriter w) = written w" by (simp add: delivered_def NewWriter_def)
  obtain b1 where 1:
    "(if Event e \<noteq> [] then Fprintf (NewWriter w) (''event: '' @ Event e @ [LF])
      else (NewWriter w, None)) = (b1, None)" "working b1"
    "delivered b1 = delivered (NewWriter w) @
       (if Event e \<noteq> [] then ''event: '' @ Event e @ [LF] else [])"
    using Fprintf_if_working [OF w0] by blast
  obtain b2 where 2:
    "(if ID e \<noteq> [] then Fprintf b1 (''id: '' @ ID e @ [LF]) else (b1, None)) = (b2, None)"
    "working b2"
    "delivered b2 = delivered b1 @ (if ID e \<noteq> [] then ''id: '' @ ID e @ [LF] else [])"
    using Fprintf_if_working [OF 1(2)] by blast
  obtain b3 where 3:
    "(if Retry e > 0 then Fprintf b2 (''retry: '' @ FormatUint (unat (Retry e)) @ [LF])
      else (b2, None)) = (b3, None)"
    "working b3"
    "delivered b3 = delivered b2 @
       (if Retry e > 0 then ''retry: '' @ FormatUint (unat (Retry e)) @ [LF] else [])"
    using Fprintf_if_working [OF 2(2)] by blast
  obtain b4 where 4:
    "WriteString b3 ''data: '' = (b4, None)" "working b4"
    "delivered b4 = delivered b3 @ ''data: ''"
    using bufio_Write_working [OF 3(2)] unfolding WriteString_def by blast
  have "delivered b4 = written w @ header e @ ''data: ''"
    by (simp add: 4(3) 3(3) 2(3) 1(3) d0 header_def)
  with 1(1) 2(1) 3(1) 4(1) 4(2) show ?thesis by (rule that)
qed

lemma encode_working:
  assumes w: "broken w = None" and d: "Data e = BytesReader p"
  shows "SSEventEncode w e = (w\<lparr>written := written w @ wire_format e p\<rparr>, Ok ())"
proof -
  obtain b1 b2 b3 b4 where s:
    "(if Event e \<noteq> [] then Fprintf (NewWriter w) (''event: '' @ Event e @ [LF])
      else (NewWriter w, None)) = (b1, None)"
    "(if ID e \<noteq> [] then Fprintf b1 (''id: '' @ ID e @ [LF]) else (b1, None)) = (b2, None)"
    "(if Retry e > 0 then Fprintf b2 (''retry: '' @ FormatUint (unat (Retry e)) @ [LF])
      else (b2, None)) = (b3, None)"
    "WriteString b3 ''data: '' = (b4, None)"
    and w4: "working b4"
    and d4: "delivered b4 = written w @ header e @ ''data: ''"
    by (rule encode_steps_working [OF w])
  obtain b5 where 5: "io_Copy b4 (BytesReader p) = (b5, Ok ())" "working b5"
    "delivered b5 = delivered b4 @ p"
    using bufio_Write_working [OF w4, of p] w4 by (cases "p = []") auto
  obtain b6 where 6: "WriteString b5 [LF, LF] = (b6, None)" "working b6"
    "delivered b6 = delivered b5 @ [LF, LF]"
    using bufio_Write_working [OF 5(2)] unfolding WriteString_def by blast
  obtain b7 where 7: "Flush b6 = (b7, None)" "working b7" "pending b7 = []"
    "delivered b7 = delivered b6"
    using Flush_working [OF 6(2)] by blast
  have res: "SSEventEncode w e = (wr b7, Ok ())"
    by (simp add: SSEventEncode_def s d 5(1) 6(1) 7(1) del: io_Copy.simps)
  have "written (wr b7) = delivered b7"
    using 7(3) by (simp add: delivered_def)
  then have "written (wr b7) = written w @ wire_format e p"
    by (simp add: 7(4) 6(3) 5(3) d4 wire_format_def)
  moreover have "broken (wr b7) = broken w"
    using 7(2) w by (simp add: working_def)
  ultimately have "wr b7 = w\<lparr>written := written w @ wire_format e p\<rparr>"
    by (cases "wr b7"; cases w) simp
  with res show ?thesis by simp
qed

lemma encode_nil_working:
  assumes w: "broken w = None" and d: "Data e = NilReader"
  shows "snd (SSEventEncode w e) = Panic"
proof -
  obtain b1 b2 b3 b4 where s:
    "(if Event e \<noteq> [] then Fprintf (NewWriter w) (''event: '' @ Event e @ [LF])
      else (NewWriter w, None)) = (b1, None)"
    "(if ID e \<noteq> [] then Fprintf b1 (''id: '' @ ID e @ [LF]) else (b1, None)) = (b2, None)"
    "(if Retry e > 0 then Fprintf b2 (''retry: '' @ FormatUint (unat (Retry e)) @ [LF])
      else (b2, None)) = (b3, None)"
    "WriteString b3 ''data: '' = (b4, None)"
    and w4: "working b4"
    by (rule encode_steps_working [OF w])
  obtain b5 where 5: "io_Copy b4 NilReader = (b5, Panic)"
    using io_Copy_Nil_working [OF w4] by (cases "io_Copy b4 NilReader") auto
  show ?thesis
    by (simp add: SSEventEncode_def s d 5 del: io_Copy.simps)
qed

lemma Flush_sane:
  "sane w b \<Longrightarrow> Flush b = (b', r) \<Longrightarrow> sane w b' \<and> (r = None \<or> r = broken w)"
  by (auto simp: sane_def Flush_def Write_def split: option.splits if_splits)

lemma bufio_Write_sane:
  "sane w b \<Longrightarrow> bufio_Write b p = (b', r) \<Longrightarrow> sane w b' \<and> (r = None \<or> r = broken w)"
  by (auto simp: sane_def bufio_Write_def write_through_def Flush_def Write_def Let_def
           split: option.splits if_splits)

lemma Fprintf_if_sane:
  "sane w b \<Longrightarrow> (if c then Fprintf b s else (b, None)) = (b', r) \<Longrightarrow>
   sane w b' \<and> (r = None \<or> r = broken w)"
  using bufio_Write_sane [of w b s b' r]
  by (auto simp: Fprintf_def split: if_splits)

lemma io_Copy_Nil_sane:
  "sane w b \<Longrightarrow> io_Copy b NilReader = (b', r) \<Longrightarrow>
   r = Panic \<or> (\<exists>err. broken w = Some err \<and> r = Err err)"
  by (auto simp: sane_def Flush_def Write_def split: option.splits if_splits)

lemma encode_nil_never_Ok:
  assumes d: "Data e = NilReader"
  shows "snd (SSEventEncode w e) = Panic \<or>
         (\<exists>err. broken w = Some err \<and> snd (SSEventEncode w e) = Err err)"
proof -
  have s0: "sane w (NewWriter w)" by (simp add: sane_def NewWriter_def)
  obtain b1 r1 where 1:
    "(if Event e \<noteq> [] then Fprintf (NewWriter w) (''event: '' @ Event e @ [LF])
      else (NewWriter w, None)) = (b1, r1)"
    by fastforce
  obtain b2 r2 where 2:
    "(if ID e \<noteq> [] then Fprintf b1 (''id: '' @ ID e @ [LF]) else (b1, None)) = (b2, r2)"
    by fastforce
  obtain b3 r3 where 3:
    "(if Retry e > 0 then Fprintf b2 (''retry: '' @ FormatUint (unat (Retry e)) @ [LF])
      else (b2, None)) = (b3, r3)"
    by fastforce
  obtain b4 r4 where 4: "WriteString b3 ''data: '' = (b4, r4)"
    by fastforce
  obtain b5 r5 where 5: "io_Copy b4 NilReader = (b5, r5)"
    by fastforce
  have s1: "sane w b1" "r1 = None \<or> r1 = broken w"
    using Fprintf_if_sane [OF s0 1] by simp_all
  have s2: "sane w b2" "r2 = None \<or> r2 = broken w"
    using Fprintf_if_sane [OF s1(1) 2] by simp_all
  have s3: "sane w b3" "r3 = None \<or> r3 = broken w"
    using Fprintf_if_sane [OF s2(1) 3] by simp_all
  have s4: "sane w b4"
    using bufio_Write_sane [OF s3(1)] 4 by (simp add: WriteString_def)
  have s5: "r5 = Panic \<or> (\<exists>err. broken w = Some err \<and> r5 = Err err)"
    by (rule io_Copy_Nil_sane [OF s4 5])
  have "snd (SSEventEncode w e) =
          (case r1 of Some x \<Rightarrow> Err x | None \<Rightarrow>
           case r2 of Some x \<Rightarrow> Err x | None \<Rightarrow>
           case r3 of Some x \<Rightarrow> Err x | None \<Rightarrow>
           case r5 of Panic \<Rightarrow> Panic | Err x \<Rightarrow> Err x | Ok u \<Rightarrow> Ok u)"
    using s5
    by (auto simp: SSEventEncode_def 1 2 3 4 5 d simp del: io_Copy.simps
             split: option.splits result.splits)
  with s1(2) s2(2) s3(2) s5 show ?thesis
    by (auto split: option.splits)
qed

subsection \<open>Decimal formatting\<close>

lemma digit_char_facts:
  "n < 10 \<Longrightarrow> is_digit (digit_char n) \<and> of_char (digit_char n) = 48 + n"
proof -
  assume "n < 10"
  then have "n \<in> {0, 1, 2, 3, 4, 5, 6, 7, 8, 9}" by auto
  then show ?thesis
    by (auto simp: digit_char_def is_digit_def less_eq_char_def)
qed

lemma FormatUint_nonempty: "FormatUint n \<noteq> []"
  by (subst FormatUint.simps) simp

lemma FormatUint_digits: "list_all is_digit (FormatUint n)"
proof (induction n rule: FormatUint.induct)
  case (1 n)
  then show ?case
    by (subst FormatUint.simps) (simp add: digit_char_facts)
qed

lemma FormatUint_value: "digits_value (FormatUint n) = n"
proof (induction n rule: FormatUint.induct)
  case (1 n)
  show ?case
  proof (cases "n < 10")
    case True
    then show ?thesis
      by (subst FormatUint.simps) (simp add: digits_value_def digit_char_facts)
  next
    case False
    with 1 have "digits_value (FormatUint (n div 10)) = n div 10" by simp
    with False show ?thesis
      by (subst FormatUint.simps) (simp add: digits_value_def digit_char_facts)
  qed
qed

lemma FormatUint_no_leading_zero: "n \<noteq> 0 \<Longrightarrow> hd (FormatUint n) \<noteq> CHR ''0''"
proof (induction n rule: FormatUint.induct)
  case (1 n)
  show ?case
  proof (cases "n < 10")
    case True
    with 1(2) have "n \<in> {1, 2, 3, 4, 5, 6, 7, 8, 9}" by auto
    then show ?thesis
      by (subst FormatUint.simps) (auto simp: digit_char_def)
  next
    case False
    then have "n div 10 \<noteq> 0" by simp
    with 1(1) False have "hd (FormatUint (n div 10)) \<noteq> CHR ''0''" by simp
    with False show ?thesis
      by (subst FormatUint.simps) (simp add: FormatUint_nonempty)
  qed
qed

lemma is_digit_not_special:
  "is_digit c \<Longrightarrow> c \<noteq> CHR ''+'' \<and> c \<noteq> CHR ''-'' \<and> c \<noteq> LF \<and> c \<noteq> CR \<and> c \<noteq> CHR '':''"
  by (auto simp: is_digit_def less_eq_char_def)

lemma FormatUint_no_special:
  "c \<in> set (FormatUint n) \<Longrightarrow> c \<noteq> CHR ''+'' \<and> c \<noteq> CHR ''-'' \<and> c \<noteq> LF \<and> c \<noteq> CR"
  using FormatUint_digits [of n] is_digit_not_special [of c]
  by (auto simp: list_all_iff)

lemma strict_base10_FormatUint: "strict_base10 (FormatUint n) = Some (int n)"
proof -
  have "hd (FormatUint n) \<in> set (FormatUint n)"
    using FormatUint_nonempty by simp
  then have "hd (FormatUint n) \<noteq> CHR ''+'' \<and> hd (FormatUint n) \<noteq> CHR ''-''"
    using FormatUint_no_special by blast
  then show ?thesis
    by (simp add: strict_base10_def FormatUint_nonempty FormatUint_digits FormatUint_value)
qed

lemma Atoi_FormatUint: "n \<le> 2 ^ 63 - 1 \<Longrightarrow> Atoi (FormatUint n) = Some (int n)"
  by (simp add: Atoi_strict_base10 strict_base10_FormatUint)

subsection \<open>Encoding and then decoding\<close>

lemma split_field_named:
  "CHR '':'' \<notin> set f \<Longrightarrow> split_field (f @ '': '' @ v) = (f, v)"
  by (simp add: split_field_colon)

lemma process_named_field:
  assumes f: "f \<noteq> []" "CHR '':'' \<notin> set f"
  shows "process_line st (f @ '': '' @ v) =
     (if f = ''event'' then st\<lparr>event := (event st)\<lparr>Event := v\<rparr>\<rparr>
      else if f = ''id'' then
        (if \<not> Contains v [NUL] then st\<lparr>event := (event st)\<lparr>ID := v\<rparr>\<rparr> else st)
      else if f = ''retry'' then
        (case Atoi v of
           Some retry \<Rightarrow>
             if retry \<ge> 0 then st\<lparr>event := (event st)\<lparr>Retry := word_of_int retry\<rparr>\<rparr>
             else st
         | None \<Rightarrow> st)
      else if f = ''data'' then st\<lparr>dataLines := dataLines st @ [v]\<rparr>
      else st)"
proof -
  have 1: "f @ '': '' @ v \<noteq> []"
    using f by simp
  have 2: "hd (f @ '': '' @ v) \<noteq> CHR '':''"
    using f by (cases f) auto
  show ?thesis
    by (rule process_line_field [OF 1 2 split_field_named [OF f(2)]])
qed

lemma roundtrip:
  assumes ev: "Event e \<noteq> []" "LF \<notin> set (Event e)" "CR \<notin> set (Event e)"
    and id: "ID e \<noteq> []" "LF \<notin> set (ID e)" "CR \<notin> set (ID e)" "NUL \<notin> set (ID e)"
    and rt: "0 < Retry e" "unat (Retry e) \<le> 2 ^ 63 - 1"
    and da: "Data e = BytesReader p" "LF \<notin> set p" "CR \<notin> set p"
  shows "SSEventDecode (BytesReader (wire_format e p)) = Ok [e]"
proof -
  define R where "R = FormatUint (unat (Retry e))"
  have R: "LF \<notin> set R" "CR \<notin> set R"
    using FormatUint_no_special [of _ "unat (Retry e)"] unfolding R_def by blast+
  define l1 where "l1 = ''event: '' @ Event e"
  define l2 where "l2 = ''id: '' @ ID e"
  define l3 where "l3 = ''retry: '' @ R"
  define l4 where "l4 = ''data: '' @ p"
  have wire: "wire_format e p = l1 @ LF # l2 @ LF # l3 @ LF # l4 @ LF # [LF]"
    using ev(1) id(1) rt(1)
    by (simp add: wire_format_def header_def l1_def l2_def l3_def l4_def R_def)
  have nl: "LF \<notin> set l1" "LF \<notin> set l2" "LF \<notin> set l3" "LF \<notin> set l4"
    using ev id R da by (auto simp: l1_def l2_def l3_def l4_def)
  have ncr: "CR \<notin> set (wire_format e p)"
    using ev id R da by (auto simp: wire l1_def l2_def l3_def l4_def)
  have nbom: "\<not> HasPrefix (wire_format e p) BOM"
    by (simp add: wire l1_def)
  have norm: "normalize_raw (wire_format e p) = wire_format e p"
    using nbom ncr by (simp add: normalize_all_lf TrimPrefix_def all_lf_id)
  have lines: "Split (wire_format e p) [LF] = [l1, l2, l3, l4, [], []]"
    using nl by (simp add: wire Split_line)
  have s1: "process_line init_state l1 = init_state\<lparr>event := zero_SSEvent\<lparr>Event := Event e\<rparr>\<rparr>"
    unfolding l1_def using process_named_field [of "''event''" init_state "Event e"]
    by (simp add: init_state_def)
  have s2: "process_line (init_state\<lparr>event := zero_SSEvent\<lparr>Event := Event e\<rparr>\<rparr>) l2 =
      init_state\<lparr>event := zero_SSEvent\<lparr>Event := Event e, ID := ID e\<rparr>\<rparr>"
    unfolding l2_def
    using process_named_field [of "''id''" _ "ID e"] id(4)
    by (simp add: init_state_def Contains_single)
  have "Atoi R = Some (int (unat (Retry e)))"
    unfolding R_def by (rule Atoi_FormatUint [OF rt(2)])
  then have s3: "process_line (init_state\<lparr>event := zero_SSEvent\<lparr>Event := Event e, ID := ID e\<rparr>\<rparr>) l3 =
      init_state\<lparr>event := zero_SSEvent\<lparr>Event := Event e, ID := ID e, Retry := Retry e\<rparr>\<rparr>"
    unfolding l3_def
    using process_named_field [of "''retry''" _ R]
    by (simp add: init_state_def)
  have s4: "process_line
       (init_state\<lparr>event := zero_SSEvent\<lparr>Event := Event e, ID := ID e, Retry := Retry e\<rparr>\<rparr>) l4 =
      init_state\<lparr>event := zero_SSEvent\<lparr>Event := Event e, ID := ID e, Retry := Retry e\<rparr>,
                  dataLines := [p]\<rparr>"
    unfolding l4_def
    using process_named_field [of "''data''" _ p]
    by (simp add: init_state_def)
  have s5: "process_line
       (init_state\<lparr>event := zero_SSEvent\<lparr>Event := Event e, ID := ID e, Retry := Retry e\<rparr>,
                   dataLines := [p]\<rparr>) [] =
      init_state\<lparr>events := [e]\<rparr>"
    using ev(1) da(1)
    by (simp add: process_line_blank_emit finish_event_def init_state_def zero_SSEvent_def)
  have s6: "process_line (init_state\<lparr>events := [e]\<rparr>) [] = init_state\<lparr>events := [e]\<rparr>"
    by (simp add: process_line_blank_skip init_state_def zero_SSEvent_def)
  have "decode_lines [l1, l2, l3, l4, [], []] = [e]"
    by (simp add: decode_lines_def s1 s2 s3 s4 s5 s6)
  then show ?thesis
    by (simp add: SSEventDecode_def norm lines)
qed

subsection \<open>Blocks without data lines\<close>

lemma Data_event_process_line:
  "Data (event st) = NilReader \<Longrightarrow> Data (event (process_line st l)) = NilReader"
  by (auto simp: process_line_def Let_def zero_SSEvent_def split: prod.splits option.splits)

lemma dataLines_process_line_other:
  "l \<noteq> [] \<Longrightarrow> fst (split_field l) \<noteq> ''data'' \<Longrightarrow>
   dataLines (process_line st l) = dataLines st"
  by (auto simp: process_line_def Let_def split: prod.splits option.splits)

lemma block_without_data:
  "\<forall>l\<in>set blk. l \<noteq> [] \<and> fst (split_field l) \<noteq> ''data'' \<Longrightarrow>
   dataLines (foldl process_line st blk) = dataLines st \<and>
   events (foldl process_line st blk) = events st \<and>
   (Data (event st) = NilReader \<longrightarrow> Data (event (foldl process_line st blk)) = NilReader)"
proof (induction blk arbitrary: st)
  case Nil
  show ?case by simp
next
  case (Cons l blk)
  then show ?case
    by (simp add: dataLines_process_line_other events_process_line_nonblank
                  Data_event_process_line)
qed

lemma block_without_data_emits_nil:
  assumes "Data (event st) = NilReader" "dataLines st = []"
    and "\<forall>l\<in>set blk. l \<noteq> [] \<and> fst (split_field l) \<noteq> ''data''"
    and "Event (event (foldl process_line st blk)) \<noteq> []"
  shows "events (foldl process_line st (blk @ [[]])) =
           events st @ [event (foldl process_line st blk)] \<and>
         Data (event (foldl process_line st blk)) = NilReader"
proof -
  define st' where "st' = foldl process_line st blk"
  have 1: "dataLines st' = []" "events st' = events st" "Data (event st') = NilReader"
    using block_without_data [OF assms(3), of st] assms(1,2) by (simp_all add: st'_def)
  have "finish_event st' = event st'"
    using assms(4) 1 by (simp add: finish_event_def st'_def [symmetric])
  then have "events (process_line st' []) = events st @ [event st']"
    using assms(4) 1 by (simp add: process_line_blank_emit st'_def [symmetric])
  with 1 show ?thesis by (simp add: st'_def [symmetric])
qed

subsection \<open>Read failures are the only failures\<close>



subsection \<open>Event boundaries\<close>

text \<open>
  C4. A line of the loop appends an event exactly when it is blank and there is a pending
  data line or a pending event name; the event appended is \<open>finish_event\<close>: its name is
  \<open>message\<close> when none was given, and its payload the data lines with one newline
  between them and none after the last. A blank line with nothing pending changes
  nothing; after a boundary the pending event and data lines are reset. Lines after the
  last blank line emit nothing. Here a blank line is an empty element of the split at
  newlines, so the empty piece after a final newline counts as one. Decoding
  \<^verbatim>\<open>"\n\nevent: t\ndata: d\n\n\n"\<close> gives exactly one event, and the unterminated
  block after \<^verbatim>\<open>"data: a\n\n"\<close> gives none.
\<close>

theorem C4_event_boundary:
  "(events (process_line st l) =
      (if l = [] \<and> (dataLines st \<noteq> [] \<or> Event (event st) \<noteq> [])
       then events st @ [finish_event st] else events st)) \<and>
   (dataLines st = [] \<and> Event (event st) = [] \<longrightarrow> process_line st [] = st) \<and>
   (dataLines st \<noteq> [] \<or> Event (event st) \<noteq> [] \<longrightarrow>
      dataLines (process_line st []) = [] \<and> event (process_line st []) = zero_SSEvent) \<and>
   Event (finish_event st) = (if Event (event st) = [] then ''message'' else Event (event st)) \<and>
   (dataLines st = d # ds \<longrightarrow>
      Data (finish_event st) = BytesReader (d @ concat (map (\<lambda>x. LF # x) ds))) \<and>
   ([] \<notin> set rest \<longrightarrow> decode_lines (ls @ rest) = decode_lines ls) \<and>
   SSEventDecode (BytesReader ([LF, LF] @ ''event: t'' @ [LF] @ ''data: d'' @ [LF, LF, LF])) =
     Ok [\<lparr>Event = ''t'', Data = BytesReader ''d'', ID = [], Retry = 0\<rparr>] \<and>
   SSEventDecode (BytesReader (''data: a'' @ [LF, LF] @ ''event: t'' @ [LF] @ ''data: d'')) =
     Ok [\<lparr>Event = ''message'', Data = BytesReader ''a'', ID = [], Retry = 0\<rparr>]"
proof (intro conjI)
  show "events (process_line st l) =
      (if l = [] \<and> (dataLines st \<noteq> [] \<or> Event (event st) \<noteq> [])
       then events st @ [finish_event st] else events st)"
    by (rule events_process_line)
  show "dataLines st = [] \<and> Event (event st) = [] \<longrightarrow> process_line st [] = st"
    by (simp add: process_line_blank_skip)
  show "dataLines st \<noteq> [] \<or> Event (event st) \<noteq> [] \<longrightarrow>
      dataLines (process_line st []) = [] \<and> event (process_line st []) = zero_SSEvent"
    by (simp add: process_line_blank_emit)
  show "Event (finish_event st) = (if Event (event st) = [] then ''message'' else Event (event st))"
    by (simp add: finish_event_def)
  show "dataLines st = d # ds \<longrightarrow>
      Data (finish_event st) = BytesReader (d @ concat (map (\<lambda>x. LF # x) ds))"
    by (simp add: finish_event_def Join_Cons)
  show "[] \<notin> set rest \<longrightarrow> decode_lines (ls @ rest) = decode_lines ls"
    by (simp add: decode_lines_trailing)
  show "SSEventDecode (BytesReader ([LF, LF] @ ''event: t'' @ [LF] @ ''data: d'' @ [LF, LF, LF])) =
     Ok [\<lparr>Event = ''t'', Data = BytesReader ''d'', ID = [], Retry = 0\<rparr>]"
    by code_simp
  show "SSEventDecode (BytesReader (''data: a'' @ [LF, LF] @ ''event: t'' @ [LF] @ ''data: d'')) =
     Ok [\<lparr>Event = ''message'', Data = BytesReader ''a'', ID = [], Retry = 0\<rparr>]"
    by code_simp
qed

text \<open>
  The loop's initial state at a blank line, and a state with two pending data lines at
  one; a block of two field lines that no blank line ends.
\<close>

theorem C4_event_boundary_witness:
  "process_line init_state [] = init_state \<and>
   events (process_line \<lparr>dataLines = [''a'', ''b''], event = zero_SSEvent, events = []\<rparr> []) =
     [\<lparr>Event = ''message'', Data = BytesReader (''a'' @ [LF] @ ''b''), ID = [], Retry = 0\<rparr>] \<and>
   dataLines (process_line \<lparr>dataLines = [''a'', ''b''], event = zero_SSEvent, events = []\<rparr> []) = [] \<and>
   event (process_line \<lparr>dataLines = [''a'', ''b''], event = zero_SSEvent, events = []\<rparr> []) = zero_SSEvent \<and>
   [] \<notin> set [''event: t'', ''data: d''] \<and>
   decode_lines ([''data: a'', []] @ [''event: t'', ''data: d'']) = decode_lines [''data: a'', []]"
  using C4_event_boundary
          [where st = init_state and l = "[]" and d = "[]" and ds = "[]" and rest = "[]" and ls = "[]"]
        C4_event_boundary
          [where st = "\<lparr>dataLines = [''a'', ''b''], event = zero_SSEvent, events = []\<rparr>"
             and l = "[]" and d = "''a''" and ds = "[''b'']"
             and rest = "[''event: t'', ''data: d'']" and ls = "[''data: a'', []]"]
  by (simp add: init_state_def zero_SSEvent_def finish_event_def)

subsection \<open>Field lines\<close>

text \<open>
  C5. A line without a colon is a field name with an empty value. Otherwise the line is
  split at its first colon, and if the value begins with a space exactly that one space
  is removed: a second space stays. A \<open>data\<close> line appends its value to the pending
  data lines, and these are joined with one newline between them and none at the end.
  Decoding \<^verbatim>\<open>"data: a\ndata: b\ndata:c\n\n"\<close> gives the payload \<^verbatim>\<open>"a\nb\nc"\<close>, and
  the line \<^verbatim>\<open>"data:  two spaces"\<close> the value \<^verbatim>\<open>" two spaces"\<close>.
\<close>

theorem C5_field_split:
  "(CHR '':'' \<notin> set line \<longrightarrow> split_field line = (line, [])) \<and>
   (CHR '':'' \<notin> set f \<longrightarrow>
      split_field (f @ CHR '':'' # v) =
        (f, if v \<noteq> [] \<and> hd v = CHR '' '' then tl v else v)) \<and>
   (CHR '':'' \<notin> set f \<longrightarrow> split_field (f @ '': '' @ v) = (f, v)) \<and>
   (line \<noteq> [] \<and> hd line \<noteq> CHR '':'' \<and> fst (split_field line) = ''data'' \<longrightarrow>
      process_line st line = st\<lparr>dataLines := dataLines st @ [snd (split_field line)]\<rparr>) \<and>
   Join (d # ds) [LF] = d @ concat (map (\<lambda>x. LF # x) ds) \<and>
   SSEventDecode (BytesReader (''data: a'' @ [LF] @ ''data: b'' @ [LF] @ ''data:c'' @ [LF, LF])) =
     Ok [\<lparr>Event = ''message'', Data = BytesReader (''a'' @ [LF] @ ''b'' @ [LF] @ ''c''),
          ID = [], Retry = 0\<rparr>] \<and>
   SSEventDecode (BytesReader (''data:  two spaces'' @ [LF, LF])) =
     Ok [\<lparr>Event = ''message'', Data = BytesReader '' two spaces'', ID = [], Retry = 0\<rparr>]"
proof (intro conjI)
  show "CHR '':'' \<notin> set line \<longrightarrow> split_field line = (line, [])"
    by (simp add: split_field_no_colon)
  show "CHR '':'' \<notin> set f \<longrightarrow>
      split_field (f @ CHR '':'' # v) =
        (f, if v \<noteq> [] \<and> hd v = CHR '' '' then tl v else v)"
    by (simp add: split_field_colon)
  show "CHR '':'' \<notin> set f \<longrightarrow> split_field (f @ '': '' @ v) = (f, v)"
    by (simp add: split_field_colon)
  show "line \<noteq> [] \<and> hd line \<noteq> CHR '':'' \<and> fst (split_field line) = ''data'' \<longrightarrow>
      process_line st line = st\<lparr>dataLines := dataLines st @ [snd (split_field line)]\<rparr>"
    using process_line_field [of line "fst (split_field line)" "snd (split_field line)" st]
    by simp
  show "Join (d # ds) [LF] = d @ concat (map (\<lambda>x. LF # x) ds)"
    by (simp add: Join_Cons)
  show "SSEventDecode (BytesReader (''data: a'' @ [LF] @ ''data: b'' @ [LF] @ ''data:c'' @ [LF, LF])) =
     Ok [\<lparr>Event = ''message'', Data = BytesReader (''a'' @ [LF] @ ''b'' @ [LF] @ ''c''),
          ID = [], Retry = 0\<rparr>]"
    by code_simp
  show "SSEventDecode (BytesReader (''data:  two spaces'' @ [LF, LF])) =
     Ok [\<lparr>Event = ''message'', Data = BytesReader '' two spaces'', ID = [], Retry = 0\<rparr>]"
    by code_simp
qed

text \<open>
  The line \<^verbatim>\<open>"event"\<close> has no colon; \<^verbatim>\<open>"data:  two"\<close> has two spaces after its
  colon; \<^verbatim>\<open>"data:x"\<close> is a data line met with one data line pending.
\<close>

theorem C5_field_split_witness:
  "CHR '':'' \<notin> set ''event'' \<and> split_field ''event'' = (''event'', []) \<and>
   CHR '':'' \<notin> set ''data'' \<and> split_field ''data:  two'' = (''data'', '' two'') \<and>
   ''data:x'' \<noteq> [] \<and> hd ''data:x'' \<noteq> CHR '':'' \<and> fst (split_field ''data:x'') = ''data'' \<and>
   process_line \<lparr>dataLines = [''w''], event = zero_SSEvent, events = []\<rparr> ''data:x'' =
     \<lparr>dataLines = [''w'', ''x''], event = zero_SSEvent, events = []\<rparr>"
  using C5_field_split
          [where line = "''event''" and f = "''data''" and v = "''  two''"
             and st = init_state and d = "[]" and ds = "[]"]
        C5_field_split
          [where line = "''data:x''" and f = "''data''" and v = "''x''"
             and st = "\<lparr>dataLines = [''w''], event = zero_SSEvent, events = []\<rparr>"
             and d = "[]" and ds = "[]"]
  by simp

subsection \<open>The retry field\<close>

text \<open>
  C6. A \<open>retry\<close> line stores its value exactly when the value is a strict base-10
  integer (an optional sign, then decimal digits only, so nothing may follow the digits)
  that is not negative and fits Go's \<^verbatim>\<open>int\<close>; otherwise the line changes nothing and
  the decoder goes on. The values \<^verbatim>\<open>invalid\<close>, \<^verbatim>\<open>-100\<close> and \<^verbatim>\<open>100ms\<close> leave the
  retry at 0 and the decode succeeds.
\<close>

theorem C6_retry_field:
  "(line \<noteq> [] \<and> hd line \<noteq> CHR '':'' \<and> split_field line = (''retry'', v) \<longrightarrow>
      process_line st line =
        (case strict_base10 v of
           Some n \<Rightarrow>
             if 0 \<le> n \<and> n \<le> 2 ^ 63 - 1
             then st\<lparr>event := (event st)\<lparr>Retry := word_of_int n\<rparr>\<rparr> else st
         | None \<Rightarrow> st)) \<and>
   SSEventDecode (BytesReader (''retry: invalid'' @ [LF] @ ''data: test'' @ [LF, LF])) =
     Ok [\<lparr>Event = ''message'', Data = BytesReader ''test'', ID = [], Retry = 0\<rparr>] \<and>
   SSEventDecode (BytesReader (''retry: -100'' @ [LF] @ ''data: test'' @ [LF, LF])) =
     Ok [\<lparr>Event = ''message'', Data = BytesReader ''test'', ID = [], Retry = 0\<rparr>] \<and>
   SSEventDecode (BytesReader (''retry: 100ms'' @ [LF] @ ''data: test'' @ [LF, LF])) =
     Ok [\<lparr>Event = ''message'', Data = BytesReader ''test'', ID = [], Retry = 0\<rparr>] \<and>
   SSEventDecode (BytesReader (''retry: 3000'' @ [LF] @ ''data: test'' @ [LF, LF])) =
     Ok [\<lparr>Event = ''message'', Data = BytesReader ''test'', ID = [], Retry = 3000\<rparr>]"
proof (intro conjI)
  show "line \<noteq> [] \<and> hd line \<noteq> CHR '':'' \<and> split_field line = (''retry'', v) \<longrightarrow>
      process_line st line =
        (case strict_base10 v of
           Some n \<Rightarrow>
             if 0 \<le> n \<and> n \<le> 2 ^ 63 - 1
             then st\<lparr>event := (event st)\<lparr>Retry := word_of_int n\<rparr>\<rparr> else st
         | None \<Rightarrow> st)"
    by (auto simp: process_line_field Atoi_strict_base10 split: option.splits)
  show "SSEventDecode (BytesReader (''retry: invalid'' @ [LF] @ ''data: test'' @ [LF, LF])) =
     Ok [\<lparr>Event = ''message'', Data = BytesReader ''test'', ID = [], Retry = 0\<rparr>]"
    by code_simp
  show "SSEventDecode (BytesReader (''retry: -100'' @ [LF] @ ''data: test'' @ [LF, LF])) =
     Ok [\<lparr>Event = ''message'', Data = BytesReader ''test'', ID = [], Retry = 0\<rparr>]"
    by code_simp
  show "SSEventDecode (BytesReader (''retry: 100ms'' @ [LF] @ ''data: test'' @ [LF, LF])) =
     Ok [\<lparr>Event = ''message'', Data = BytesReader ''test'', ID = [], Retry = 0\<rparr>]"
    by code_simp
  show "SSEventDecode (BytesReader (''retry: 3000'' @ [LF] @ ''data: test'' @ [LF, LF])) =
     Ok [\<lparr>Event = ''message'', Data = BytesReader ''test'', ID = [], Retry = 3000\<rparr>]"
    by code_simp
qed

text \<open>
  The line \<^verbatim>\<open>"retry: 100ms"\<close> met with a retry of 7 already stored leaves the 7; the
  line \<^verbatim>\<open>"retry: 25"\<close> replaces it.
\<close>

theorem C6_retry_field_witness:
  "''retry: 100ms'' \<noteq> [] \<and> hd ''retry: 100ms'' \<noteq> CHR '':'' \<and>
   split_field ''retry: 100ms'' = (''retry'', ''100ms'') \<and>
   strict_base10 ''100ms'' = None \<and>
   process_line \<lparr>dataLines = [], event = zero_SSEvent\<lparr>Retry := 7\<rparr>, events = []\<rparr> ''retry: 100ms'' =
     \<lparr>dataLines = [], event = zero_SSEvent\<lparr>Retry := 7\<rparr>, events = []\<rparr> \<and>
   split_field ''retry: 25'' = (''retry'', ''25'') \<and>
   strict_base10 ''25'' = Some 25 \<and>
   process_line \<lparr>dataLines = [], event = zero_SSEvent\<lparr>Retry := 7\<rparr>, events = []\<rparr> ''retry: 25'' =
     \<lparr>dataLines = [], event = zero_SSEvent\<lparr>Retry := 25\<rparr>, events = []\<rparr>"
  using C6_retry_field
          [where line = "''retry: 100ms''" and v = "''100ms''"
             and st = "\<lparr>dataLines = [], event = zero_SSEvent\<lparr>Retry := 7\<rparr>, events = []\<rparr>"]
        C6_retry_field
          [where line = "''retry: 25''" and v = "''25''"
             and st = "\<lparr>dataLines = [], event = zero_SSEvent\<lparr>Retry := 7\<rparr>, events = []\<rparr>"]
        split_field_colon [of "''retry''" "'' 100ms''"]
        split_field_colon [of "''retry''" "'' 25''"]
  by (simp add: strict_base10_def is_digit_def less_eq_char_def digits_value_def)

subsection \<open>The id field\<close>



text \<open>
  The empty piece that the split leaves after a final newline is a blank line of the
  loop: one newline after the last field line is enough to emit its event.
\<close>

lemma final_newline_is_boundary:
  "SSEventDecode (BytesReader (''data: b'' @ [LF])) =
     Ok [\<lparr>Event = ''message'', Data = BytesReader ''b'', ID = [], Retry = 0\<rparr>]"
  by code_simp

subsection \<open>Normalisation of the input\<close>

text \<open>
  C8. The decoder normalises its input once, before anything else: one leading byte order
  mark is removed, then every CRLF becomes LF and after that every CR that is left. The
  two replacements together are the one-pass conversion \<open>all_lf\<close>, in which a CRLF pair
  gives one newline. So an input decodes as its all-LF form does, and two inputs with
  the same all-LF form (they differ only in their line endings) decode alike: lines
  with any mixture of the three endings decode as the same lines ended by LF. An input
  without a byte order mark decodes as it does with one put in front. Decoding a byte
  order mark followed by \<^verbatim>\<open>"data: x\n\n"\<close> gives the payload \<^verbatim>\<open>"x"\<close>.
\<close>

theorem C8_normalization:
  "normalize_raw raw = all_lf (TrimPrefix raw BOM) \<and>
   TrimPrefix (BOM @ s) BOM = s \<and>
   (\<not> HasPrefix s BOM \<longrightarrow> TrimPrefix s BOM = s) \<and>
   all_lf (CR # LF # s) = LF # all_lf s \<and>
   CR \<notin> set (all_lf s) \<and>
   (CR \<notin> set s \<longrightarrow> all_lf s = s) \<and>
   SSEventDecode (BytesReader raw) = SSEventDecode (BytesReader (all_lf raw)) \<and>
   (all_lf a = all_lf b \<longrightarrow> SSEventDecode (BytesReader a) = SSEventDecode (BytesReader b)) \<and>
   (plain_lines ls rest \<longrightarrow>
      SSEventDecode (BytesReader (join_lines ls rest)) =
      SSEventDecode (BytesReader (join_lines (map (\<lambda>(l, e). (l, EOL_LF)) ls) rest))) \<and>
   (\<not> HasPrefix s BOM \<longrightarrow>
      SSEventDecode (BytesReader (BOM @ s)) = SSEventDecode (BytesReader s)) \<and>
   SSEventDecode (BytesReader (BOM @ ''data: x'' @ [LF, LF])) =
     Ok [\<lparr>Event = ''message'', Data = BytesReader ''x'', ID = [], Retry = 0\<rparr>] \<and>
   SSEventDecode (BytesReader (''event: test'' @ [CR, LF] @ ''data: line1'' @ [LF] @
                               ''data: line2'' @ [CR] @ ''data: line3'' @ [LF, LF])) =
     Ok [\<lparr>Event = ''test'',
          Data = BytesReader (''line1'' @ [LF] @ ''line2'' @ [LF] @ ''line3''),
          ID = [], Retry = 0\<rparr>]"
proof (intro conjI)
  show "normalize_raw raw = all_lf (TrimPrefix raw BOM)"
    by (rule normalize_all_lf)
  show "TrimPrefix (BOM @ s) BOM = s"
    by (rule TrimPrefix_append_same)
  show "\<not> HasPrefix s BOM \<longrightarrow> TrimPrefix s BOM = s"
    by (simp add: TrimPrefix_def)
  show "all_lf (CR # LF # s) = LF # all_lf s"
    by simp
  show "CR \<notin> set (all_lf s)"
    by (rule all_lf_no_CR)
  show "CR \<notin> set s \<longrightarrow> all_lf s = s"
    by (simp add: all_lf_id)
  show "SSEventDecode (BytesReader raw) = SSEventDecode (BytesReader (all_lf raw))"
    by (simp add: decode_all_lf)
  show "all_lf a = all_lf b \<longrightarrow> SSEventDecode (BytesReader a) = SSEventDecode (BytesReader b)"
    using decode_all_lf [of a] decode_all_lf [of b] by auto
  show "plain_lines ls rest \<longrightarrow>
      SSEventDecode (BytesReader (join_lines ls rest)) =
      SSEventDecode (BytesReader (join_lines (map (\<lambda>(l, e). (l, EOL_LF)) ls) rest))"
    by (simp add: decode_join_lines)
  show "\<not> HasPrefix s BOM \<longrightarrow>
      SSEventDecode (BytesReader (BOM @ s)) = SSEventDecode (BytesReader s)"
    using decode_BOM [of s] by simp
  show "SSEventDecode (BytesReader (BOM @ ''data: x'' @ [LF, LF])) =
     Ok [\<lparr>Event = ''message'', Data = BytesReader ''x'', ID = [], Retry = 0\<rparr>]"
    by code_simp
  show "SSEventDecode (BytesReader (''event: test'' @ [CR, LF] @ ''data: line1'' @ [LF] @
                               ''data: line2'' @ [CR] @ ''data: line3'' @ [LF, LF])) =
     Ok [\<lparr>Event = ''test'',
          Data = BytesReader (''line1'' @ [LF] @ ''line2'' @ [LF] @ ''line3''),
          ID = [], Retry = 0\<rparr>]"
    by code_simp
qed

text \<open>
  The line \<^verbatim>\<open>"data: x"\<close> has no byte order mark and no CR; followed by CR, LF, CR or
  by CR, CR, LF it has the same all-LF form. An event of four lines and the blank line
  after them, with all three endings.
\<close>

theorem C8_normalization_witness:
  "\<not> HasPrefix ''data: x'' BOM \<and> TrimPrefix ''data: x'' BOM = ''data: x'' \<and>
   CR \<notin> set ''data: x'' \<and> all_lf ''data: x'' = ''data: x'' \<and>
   all_lf (''data: x'' @ [CR, LF, CR]) = all_lf (''data: x'' @ [CR, CR, LF]) \<and>
   SSEventDecode (BytesReader (''data: x'' @ [CR, LF, CR])) =
     SSEventDecode (BytesReader (''data: x'' @ [CR, CR, LF])) \<and>
   plain_lines [(''event: t'', EOL_CRLF), (''data: a'', EOL_LF), (''data: b'', EOL_CR),
                (''data: c'', EOL_CR), ([], EOL_CRLF)] [] \<and>
   SSEventDecode (BytesReader (''event: t'' @ [CR, LF] @ ''data: a'' @ [LF] @ ''data: b'' @ [CR] @
                               ''data: c'' @ [CR] @ [CR, LF])) =
     SSEventDecode (BytesReader (''event: t'' @ [LF] @ ''data: a'' @ [LF] @ ''data: b'' @ [LF] @
                                 ''data: c'' @ [LF] @ [LF])) \<and>
   SSEventDecode (BytesReader (BOM @ ''data: x'')) = SSEventDecode (BytesReader ''data: x'')"
  using C8_normalization
          [where raw = "[]" and s = "''data: x''" and a = "''data: x'' @ [CR, LF, CR]"
             and b = "''data: x'' @ [CR, CR, LF]"
             and ls = "[(''event: t'', EOL_CRLF), (''data: a'', EOL_LF), (''data: b'', EOL_CR),
                        (''data: c'', EOL_CR), ([], EOL_CRLF)]"
             and rest = "[]"]
  by simp

subsection \<open>Comment lines are ignored\<close>

text \<open>
  C9. A line that starts with a colon leaves the state of the loop as it is, so putting
  such a line anywhere into the sequence of normalised lines does not change the events.
  On the bytes: a comment line put at the start of the input, or right after an LF, does
  not change the result either. (At the very start the rest must not begin with a byte
  order mark, which is only removed when it comes first.) Decoding
  \<^verbatim>\<open>": c\nevent: t\ndata: d\n\n"\<close> equals decoding \<^verbatim>\<open>"event: t\ndata: d\n\n"\<close>.
\<close>

theorem C9_comment_lines:
  "(HasPrefix c [CHR '':''] \<longrightarrow> process_line st c = st) \<and>
   (HasPrefix c [CHR '':''] \<longrightarrow> decode_lines (pre @ c # post) = decode_lines (pre @ post)) \<and>
   (HasPrefix c [CHR '':''] \<and> LF \<notin> set c \<and> CR \<notin> set c \<and>
    ((a = [] \<and> \<not> HasPrefix b BOM) \<or> (a \<noteq> [] \<and> last a = LF)) \<longrightarrow>
      SSEventDecode (BytesReader (a @ c @ [LF] @ b)) = SSEventDecode (BytesReader (a @ b))) \<and>
   SSEventDecode (BytesReader ('': c'' @ [LF] @ ''event: t'' @ [LF] @ ''data: d'' @ [LF, LF])) =
     SSEventDecode (BytesReader (''event: t'' @ [LF] @ ''data: d'' @ [LF, LF]))"
proof (intro conjI)
  show "HasPrefix c [CHR '':''] \<longrightarrow> process_line st c = st"
    by (simp add: process_line_comment_line)
  show "HasPrefix c [CHR '':''] \<longrightarrow> decode_lines (pre @ c # post) = decode_lines (pre @ post)"
    by (simp add: decode_lines_comment)
  show "HasPrefix c [CHR '':''] \<and> LF \<notin> set c \<and> CR \<notin> set c \<and>
    ((a = [] \<and> \<not> HasPrefix b BOM) \<or> (a \<noteq> [] \<and> last a = LF)) \<longrightarrow>
      SSEventDecode (BytesReader (a @ c @ [LF] @ b)) = SSEventDecode (BytesReader (a @ b))"
    using decode_comment_bytes [of c a b] by blast
  show "SSEventDecode (BytesReader ('': c'' @ [LF] @ ''event: t'' @ [LF] @ ''data: d'' @ [LF, LF])) =
     SSEventDecode (BytesReader (''event: t'' @ [LF] @ ''data: d'' @ [LF, LF]))"
    by code_simp
qed

text \<open>A keep-alive comment between two data lines of one event.\<close>

theorem C9_comment_lines_witness:
  "HasPrefix '': keep-alive'' [CHR '':''] \<and>
   process_line \<lparr>dataLines = [''x''], event = zero_SSEvent, events = []\<rparr> '': keep-alive'' =
     \<lparr>dataLines = [''x''], event = zero_SSEvent, events = []\<rparr> \<and>
   decode_lines ([''data: x''] @ '': keep-alive'' # [''data: y'', [], []]) =
     decode_lines ([''data: x''] @ [''data: y'', [], []]) \<and>
   SSEventDecode (BytesReader ((''data: x'' @ [LF]) @ '': keep-alive'' @ [LF] @ (''data: y'' @ [LF, LF]))) =
     SSEventDecode (BytesReader ((''data: x'' @ [LF]) @ (''data: y'' @ [LF, LF])))"
  using C9_comment_lines [where c = "'': keep-alive''"
                  and st = "\<lparr>dataLines = [''x''], event = zero_SSEvent, events = []\<rparr>"
                  and pre = "[''data: x'']" and post = "[''data: y'', [], []]"
                  and a = "''data: x'' @ [LF]" and b = "''data: y'' @ [LF, LF]"]
  by simp

subsection \<open>The encoder's output\<close>

text \<open>
  C3. On a destination that works and for an event whose payload reader holds the bytes
  \<open>p\<close>, \<^verbatim>\<open>SSEventEncode\<close> succeeds and adds to the destination exactly: the line
  \<^verbatim>\<open>event: <name>\<close> if the name is not empty, then \<^verbatim>\<open>id: <id>\<close> if the id is not
  empty, then \<^verbatim>\<open>retry: <n>\<close> if the retry is positive, with n in unsigned decimal
  (digits only, no leading zero, with the value of the retry), then always
  \<^verbatim>\<open>data: \<close>, the payload as it is, a newline and a blank line. A newline inside
  the payload is copied, not turned into a second data line.
\<close>

theorem C3_encode_format:
  "(broken w = None \<and> Data e = BytesReader p \<longrightarrow>
      SSEventEncode w e =
        (w\<lparr>written := written w @
             (if Event e \<noteq> [] then ''event: '' @ Event e @ [LF] else []) @
             (if ID e \<noteq> [] then ''id: '' @ ID e @ [LF] else []) @
             (if Retry e > 0 then ''retry: '' @ FormatUint (unat (Retry e)) @ [LF] else []) @
             ''data: '' @ p @ [LF, LF]\<rparr>, Ok ())) \<and>
   FormatUint n \<noteq> [] \<and> list_all is_digit (FormatUint n) \<and> digits_value (FormatUint n) = n \<and>
   (n \<noteq> 0 \<longrightarrow> hd (FormatUint n) \<noteq> CHR ''0'') \<and>
   SSEventEncode \<lparr>written = [], broken = None\<rparr>
     \<lparr>Event = ''message'', Data = BytesReader ''hello world'', ID = ''123'', Retry = 3000\<rparr> =
     (\<lparr>written = ''event: message'' @ [LF] @ ''id: 123'' @ [LF] @ ''retry: 3000'' @ [LF] @
                   ''data: hello world'' @ [LF, LF], broken = None\<rparr>, Ok ()) \<and>
   SSEventEncode \<lparr>written = [], broken = None\<rparr>
     \<lparr>Event = [], Data = BytesReader (''line1'' @ [LF] @ ''line2''), ID = [], Retry = 0\<rparr> =
     (\<lparr>written = ''data: line1'' @ [LF] @ ''line2'' @ [LF, LF], broken = None\<rparr>, Ok ())"
proof (intro conjI)
  show "broken w = None \<and> Data e = BytesReader p \<longrightarrow>
      SSEventEncode w e =
        (w\<lparr>written := written w @
             (if Event e \<noteq> [] then ''event: '' @ Event e @ [LF] else []) @
             (if ID e \<noteq> [] then ''id: '' @ ID e @ [LF] else []) @
             (if Retry e > 0 then ''retry: '' @ FormatUint (unat (Retry e)) @ [LF] else []) @
             ''data: '' @ p @ [LF, LF]\<rparr>, Ok ())"
    using encode_working [of w e p] by (simp add: wire_format_def header_def)
  show "FormatUint n \<noteq> []" by (rule FormatUint_nonempty)
  show "list_all is_digit (FormatUint n)" by (rule FormatUint_digits)
  show "digits_value (FormatUint n) = n" by (rule FormatUint_value)
  show "n \<noteq> 0 \<longrightarrow> hd (FormatUint n) \<noteq> CHR ''0''" by (simp add: FormatUint_no_leading_zero)
  show "SSEventEncode \<lparr>written = [], broken = None\<rparr>
     \<lparr>Event = ''message'', Data = BytesReader ''hello world'', ID = ''123'', Retry = 3000\<rparr> =
     (\<lparr>written = ''event: message'' @ [LF] @ ''id: 123'' @ [LF] @ ''retry: 3000'' @ [LF] @
                   ''data: hello world'' @ [LF, LF], broken = None\<rparr>, Ok ())"
    by (simp add: enc_defs)
  show "SSEventEncode \<lparr>written = [], broken = None\<rparr>
     \<lparr>Event = [], Data = BytesReader (''line1'' @ [LF] @ ''line2''), ID = [], Retry = 0\<rparr> =
     (\<lparr>written = ''data: line1'' @ [LF] @ ''line2'' @ [LF, LF], broken = None\<rparr>, Ok ())"
    by (simp add: enc_defs)
qed

text \<open>
  An event with no id, written after \<^verbatim>\<open>"x"\<close>, with a newline in its payload; and the
  decimal text of 3000.
\<close>

theorem C3_encode_format_witness:
  "broken \<lparr>written = ''x'', broken = None\<rparr> = None \<and>
   SSEventEncode \<lparr>written = ''x'', broken = None\<rparr>
     \<lparr>Event = ''e'', Data = BytesReader (''a'' @ [LF] @ ''b''), ID = [], Retry = 5\<rparr> =
     (\<lparr>written = ''xevent: e'' @ [LF] @ ''retry: 5'' @ [LF] @ ''data: a'' @ [LF] @ ''b'' @ [LF, LF],
       broken = None\<rparr>, Ok ()) \<and>
   (3000 :: nat) \<noteq> 0 \<and> FormatUint 3000 = ''3000'' \<and> hd (FormatUint 3000) \<noteq> CHR ''0''"
  using C3_encode_format
          [where w = "\<lparr>written = ''x'', broken = None\<rparr>"
             and e = "\<lparr>Event = ''e'', Data = BytesReader (''a'' @ [LF] @ ''b''), ID = [], Retry = 5\<rparr>"
             and p = "''a'' @ [LF] @ ''b''" and n = 3000]
  by (simp add: FormatUint.simps digit_char_def)

subsection \<open>Encoding and decoding again\<close>

text \<open>
  C1, as the specification states it, fails: an event name or an id with a newline or a
  CR in it is cut at that byte, an id with a NUL is dropped, a CR in the payload ends
  the payload, and a retry of \<open>2 ^ 63\<close> does not fit the \<^verbatim>\<open>int\<close> that the decoder
  parses. Each of the events below has a non-empty name and id, a positive retry and a
  payload without a newline, and does not come back as it was.
\<close>

theorem C1_roundtrip_counterexample:
  "SSEventEncode \<lparr>written = [], broken = None\<rparr>
     \<lparr>Event = ''a'' @ [LF] @ ''b'', Data = BytesReader ''x'', ID = ''1'', Retry = 1\<rparr> =
     (\<lparr>written = ''event: a'' @ [LF] @ ''b'' @ [LF] @ ''id: 1'' @ [LF] @ ''retry: 1'' @ [LF] @
                   ''data: x'' @ [LF, LF], broken = None\<rparr>, Ok ()) \<and>
   SSEventDecode (BytesReader (''event: a'' @ [LF] @ ''b'' @ [LF] @ ''id: 1'' @ [LF] @
                               ''retry: 1'' @ [LF] @ ''data: x'' @ [LF, LF])) =
     Ok [\<lparr>Event = ''a'', Data = BytesReader ''x'', ID = ''1'', Retry = 1\<rparr>] \<and>
   \<lparr>Event = ''a'', Data = BytesReader ''x'', ID = ''1'', Retry = 1\<rparr> \<noteq>
     \<lparr>Event = ''a'' @ [LF] @ ''b'', Data = BytesReader ''x'', ID = ''1'', Retry = 1\<rparr> \<and>
   SSEventDecode (BytesReader (written (fst (SSEventEncode \<lparr>written = [], broken = None\<rparr>
       \<lparr>Event = ''a'' @ [CR] @ ''b'', Data = BytesReader ''x'', ID = ''1'', Retry = 1\<rparr>)))) =
     Ok [\<lparr>Event = ''a'', Data = BytesReader ''x'', ID = ''1'', Retry = 1\<rparr>] \<and>
   SSEventDecode (BytesReader (written (fst (SSEventEncode \<lparr>written = [], broken = None\<rparr>
       \<lparr>Event = ''a'', Data = BytesReader ''x'', ID = ''1'' @ [LF] @ ''2'', Retry = 1\<rparr>)))) =
     Ok [\<lparr>Event = ''a'', Data = BytesReader ''x'', ID = ''1'', Retry = 1\<rparr>] \<and>
   SSEventDecode (BytesReader (written (fst (SSEventEncode \<lparr>written = [], broken = None\<rparr>
       \<lparr>Event = ''a'', Data = BytesReader ''x'', ID = ''1'' @ [CR] @ ''2'', Retry = 1\<rparr>)))) =
     Ok [\<lparr>Event = ''a'', Data = BytesReader ''x'', ID = ''1'', Retry = 1\<rparr>] \<and>
   SSEventDecode (BytesReader (written (fst (SSEventEncode \<lparr>written = [], broken = None\<rparr>
       \<lparr>Event = ''a'', Data = BytesReader ''x'', ID = ''1'' @ [NUL], Retry = 1\<rparr>)))) =
     Ok [\<lparr>Event = ''a'', Data = BytesReader ''x'', ID = [], Retry = 1\<rparr>] \<and>
   SSEventDecode (BytesReader (written (fst (SSEventEncode \<lparr>written = [], broken = None\<rparr>
       \<lparr>Event = ''a'', Data = BytesReader (''x'' @ [CR] @ ''y''), ID = ''1'', Retry = 1\<rparr>)))) =
     Ok [\<lparr>Event = ''a'', Data = BytesReader ''x'', ID = ''1'', Retry = 1\<rparr>] \<and>
   SSEventDecode (BytesReader (written (fst (SSEventEncode \<lparr>written = [], broken = None\<rparr>
       \<lparr>Event = ''a'', Data = BytesReader ''x'', ID = ''1'', Retry = 9223372036854775808\<rparr>)))) =
     Ok [\<lparr>Event = ''a'', Data = BytesReader ''x'', ID = ''1'', Retry = 0\<rparr>]"
  by (simp add: enc_defs dec_defs)

text \<open>
  C1, amended. For every event whose name and id are non-empty and have no CR or LF,
  whose id has no NUL, whose retry is positive and at most \<open>2 ^ 63 - 1\<close>, and whose
  payload reader holds bytes with no CR or LF: encoding it into an empty destination
  succeeds, and decoding the bytes written gives exactly that one event, equal in all
  four fields.
\<close>

theorem C1_roundtrip_amended:
  assumes "Event e \<noteq> []" "LF \<notin> set (Event e)" "CR \<notin> set (Event e)"
    and "ID e \<noteq> []" "LF \<notin> set (ID e)" "CR \<notin> set (ID e)" "NUL \<notin> set (ID e)"
    and "0 < Retry e" "unat (Retry e) \<le> 2 ^ 63 - 1"
    and "Data e = BytesReader p" "LF \<notin> set p" "CR \<notin> set p"
  shows "\<exists>out. SSEventEncode \<lparr>written = [], broken = None\<rparr> e =
                 (\<lparr>written = out, broken = None\<rparr>, Ok ()) \<and>
               SSEventDecode (BytesReader out) = Ok [e]"
proof -
  have "SSEventEncode \<lparr>written = [], broken = None\<rparr> e =
          (\<lparr>written = wire_format e p, broken = None\<rparr>, Ok ())"
    using encode_working [of "\<lparr>written = [], broken = None\<rparr>" e p] assms(10) by simp
  moreover have "SSEventDecode (BytesReader (wire_format e p)) = Ok [e]"
    using assms by (rule roundtrip)
  ultimately show ?thesis by blast
qed

text \<open>The event of the repository's own round-trip test.\<close>

theorem C1_roundtrip_amended_witness:
  "\<exists>out. SSEventEncode \<lparr>written = [], broken = None\<rparr>
            \<lparr>Event = ''test-event'', Data = BytesReader ''test data'', ID = ''test-id'', Retry = 1000\<rparr> =
            (\<lparr>written = out, broken = None\<rparr>, Ok ()) \<and>
          SSEventDecode (BytesReader out) =
            Ok [\<lparr>Event = ''test-event'', Data = BytesReader ''test data'', ID = ''test-id'', Retry = 1000\<rparr>]"
  using C1_roundtrip_amended [of "\<lparr>Event = ''test-event'', Data = BytesReader ''test data'', ID = ''test-id'', Retry = 1000\<rparr>" "''test data''"]
  by simp

subsection \<open>An event without a payload reader\<close>

text \<open>
  C10. \<^verbatim>\<open>SSEventEncode\<close> writes \<^verbatim>\<open>data: \<close> and copies from \<^verbatim>\<open>event.Data\<close> whatever
  the event is. With a nil reader the copy panics: on every destination that works the
  encoder panics, and on no destination does it return normally (a destination that has
  already failed while the header lines were passed on makes it return that write error
  before the copy is reached). The decoder produces such events: the pending event's
  reader is nil until a boundary with data lines sets it, so a block with an event name
  and no data line is emitted with a nil reader, as \<^verbatim>\<open>"event: x\n\n"\<close> shows.
\<close>

theorem C10_nil_data_panics:
  "(Data e = NilReader \<and> broken w = None \<longrightarrow> snd (SSEventEncode w e) = Panic) \<and>
   (Data e = NilReader \<longrightarrow>
      snd (SSEventEncode w e) = Panic \<or>
      (\<exists>err. broken w = Some err \<and> snd (SSEventEncode w e) = Err err)) \<and>
   (Data (event st) = NilReader \<and> dataLines st = [] \<and>
    (\<forall>l\<in>set blk. l \<noteq> [] \<and> fst (split_field l) \<noteq> ''data'') \<and>
    Event (event (foldl process_line st blk)) \<noteq> [] \<longrightarrow>
      events (foldl process_line st (blk @ [[]])) =
        events st @ [event (foldl process_line st blk)] \<and>
      Data (event (foldl process_line st blk)) = NilReader) \<and>
   (Data (event st) = NilReader \<longrightarrow> Data (event (process_line st l)) = NilReader) \<and>
   Data (event init_state) = NilReader \<and>
   SSEventDecode (BytesReader (''event: x'' @ [LF, LF])) =
     Ok [\<lparr>Event = ''x'', Data = NilReader, ID = [], Retry = 0\<rparr>] \<and>
   snd (SSEventEncode \<lparr>written = [], broken = None\<rparr>
          \<lparr>Event = ''x'', Data = NilReader, ID = [], Retry = 0\<rparr>) = Panic"
proof (intro conjI)
  show "Data e = NilReader \<and> broken w = None \<longrightarrow> snd (SSEventEncode w e) = Panic"
    by (simp add: encode_nil_working)
  show "Data e = NilReader \<longrightarrow>
      snd (SSEventEncode w e) = Panic \<or>
      (\<exists>err. broken w = Some err \<and> snd (SSEventEncode w e) = Err err)"
    using encode_nil_never_Ok [of e w] by blast
  show "Data (event st) = NilReader \<and> dataLines st = [] \<and>
    (\<forall>l\<in>set blk. l \<noteq> [] \<and> fst (split_field l) \<noteq> ''data'') \<and>
    Event (event (foldl process_line st blk)) \<noteq> [] \<longrightarrow>
      events (foldl process_line st (blk @ [[]])) =
        events st @ [event (foldl process_line st blk)] \<and>
      Data (event (foldl process_line st blk)) = NilReader"
    using block_without_data_emits_nil [of st blk] by blast
  show "Data (event st) = NilReader \<longrightarrow> Data (event (process_line st l)) = NilReader"
    by (simp add: Data_event_process_line)
  show "Data (event init_state) = NilReader"
    by (simp add: init_state_def zero_SSEvent_def)
  show "SSEventDecode (BytesReader (''event: x'' @ [LF, LF])) =
     Ok [\<lparr>Event = ''x'', Data = NilReader, ID = [], Retry = 0\<rparr>]"
    by code_simp
  show "snd (SSEventEncode \<lparr>written = [], broken = None\<rparr>
          \<lparr>Event = ''x'', Data = NilReader, ID = [], Retry = 0\<rparr>) = Panic"
    by code_simp
qed

text \<open>
  An event with a name, an id and no payload reader, encoded after \<^verbatim>\<open>"old"\<close>; and the
  block of lines that decodes to it.
\<close>

theorem C10_nil_data_panics_witness:
  "snd (SSEventEncode \<lparr>written = ''old'', broken = None\<rparr>
          \<lparr>Event = ''tick'', Data = NilReader, ID = ''7'', Retry = 0\<rparr>) = Panic \<and>
   events (foldl process_line init_state ([''id: 7'', ''event: tick''] @ [[]])) =
     [\<lparr>Event = ''tick'', Data = NilReader, ID = ''7'', Retry = 0\<rparr>] \<and>
   Data (event (process_line init_state ''event: tick'')) = NilReader"
  using C10_nil_data_panics [where e = "\<lparr>Event = ''tick'', Data = NilReader, ID = ''7'', Retry = 0\<rparr>"
                   and w = "\<lparr>written = ''old'', broken = None\<rparr>"
                   and st = init_state and blk = "[''id: 7'', ''event: tick'']"
                   and l = "''event: tick''"]
  by (simp add: dec_defs)

text \<open>
  The case in which the panic is not reached: the destination is broken and the event
  line alone is longer than the buffer, so that line's write returns the error.
\<close>

lemma encode_nil_data_failed_sink:
  "snd (SSEventEncode \<lparr>written = [], broken = Some (IOError ''closed'')\<rparr>
     \<lparr>Event = replicate 5000 (CHR ''a''), Data = NilReader, ID = [], Retry = 0\<rparr>) =
   Err (IOError ''closed'')"
  by (simp add: enc_defs)

end
